theory Spec2Isabelle
  imports Main "HOL-Library.Word"
begin

section \<open>JavaScript strings\<close>

text \<open>
  A JavaScript string is a sequence of UTF-16 code units: \<open>length\<close> counts code units,
  \<open>split\<close>, \<open>includes\<close>, \<open>trim\<close> and the regular expression of the extension
  (which has no \<open>u\<close> flag) all work on code units. A code unit is a 16-bit word, a
  string a list of them. \<open>js\<close> turns an ASCII literal into such a string.
\<close>

type_synonym jschar = "16 word"
type_synonym jsstring = "jschar list"

definition js :: "string \<Rightarrow> jsstring" where
  "js s = map of_char s"

text \<open>
  The ECMAScript character classes the source relies on. \<open>LineTerminator\<close> is what the
  regular expression's \<open>.\<close> refuses; \<open>WhiteSpace\<close> together with \<open>LineTerminator\<close> is
  what \<open>\s\<close> accepts and what \<open>String.prototype.trim\<close> strips.
\<close>

definition isLineTerminator :: "jschar \<Rightarrow> bool" where
  "isLineTerminator c = (c = 0x0A \<or> c = 0x0D \<or> c = 0x2028 \<or> c = 0x2029)"

definition isWhiteSpace :: "jschar \<Rightarrow> bool" where
  "isWhiteSpace c =
     (c = 0x09 \<or> c = 0x0B \<or> c = 0x0C \<or> c = 0x20 \<or> c = 0xA0 \<or> c = 0x1680 \<or>
      (0x2000 \<le> c \<and> c \<le> 0x200A) \<or> c = 0x202F \<or> c = 0x205F \<or> c = 0x3000 \<or>
      c = 0xFEFF)"

definition isSpace :: "jschar \<Rightarrow> bool" where
  "isSpace c = (isWhiteSpace c \<or> isLineTerminator c)"

text \<open>\<open>content.split('\n')\<close>: the pieces between the newlines; the empty string gives
  one empty piece.\<close>

fun js_split :: "jsstring \<Rightarrow> jsstring list" where
  "js_split [] = [[]]"
| "js_split (c # cs) =
     (if c = 0x0A then [] # js_split cs
      else (case js_split cs of [] \<Rightarrow> [[c]] | l # ls \<Rightarrow> (c # l) # ls))"

text \<open>\<open>lines.join('\n')\<close>: the empty array gives the empty string.\<close>

fun js_join :: "jsstring list \<Rightarrow> jsstring" where
  "js_join [] = []"
| "js_join [l] = l"
| "js_join (l # m # ls) = l @ 0x0A # js_join (m # ls)"

text \<open>\<open>s.startsWith(t)\<close>, \<open>s.endsWith(t)\<close>, \<open>s.includes(t)\<close> and \<open>s.trim()\<close>.\<close>

fun js_startsWith :: "jsstring \<Rightarrow> jsstring \<Rightarrow> bool" where
  "js_startsWith s [] = True"
| "js_startsWith [] (t # ts) = False"
| "js_startsWith (c # cs) (t # ts) = (c = t \<and> js_startsWith cs ts)"

definition js_endsWith :: "jsstring \<Rightarrow> jsstring \<Rightarrow> bool" where
  "js_endsWith s t = js_startsWith (rev s) (rev t)"

fun js_includes :: "jsstring \<Rightarrow> jsstring \<Rightarrow> bool" where
  "js_includes [] t = (t = [])"
| "js_includes (c # cs) t = (js_startsWith (c # cs) t \<or> js_includes cs t)"

definition js_trim :: "jsstring \<Rightarrow> jsstring" where
  "js_trim s = rev (dropWhile isSpace (rev (dropWhile isSpace s)))"

text \<open>The decimal digits of a number, as the template literal \<open>${tabStopIndex}\<close>
  prints it. The index counts lines of one string, far below the range where a
  JavaScript number stops being an exact integer, so it is a natural number here.\<close>

fun numToString :: "nat \<Rightarrow> jsstring" where
  "numToString n =
     (if n < 10 then [0x30 + of_nat n]
      else numToString (n div 10) @ [0x30 + of_nat (n mod 10)])"

declare numToString.simps [simp del]

section \<open>The template processor\<close>

subsection \<open>The assignment pattern\<close>

text \<open>
  \<open>line.match(/^([A-Za-z_][A-Za-z0-9_]*)\s*=\s*(.*)$/i)\<close>.
  Without the \<open>u\<close> flag, case-insensitive matching never maps a character outside
  ASCII to an ASCII one, so the \<open>i\<close> flag adds nothing to the two classes of the key.
  The pattern carries no \<open>m\<close> flag: \<open>$\<close> is the end of the line, and \<open>.\<close> refuses the
  line terminators, so the value may hold none.

  The classes of the key, of \<open>\s\<close> and the character \<open>=\<close> are pairwise disjoint, and so
  backtracking finds nothing that the greedy run does not: the key is the longest run
  of key characters, the white space around \<open>=\<close> is skipped whole, and giving back
  white space to \<open>(.*)\<close> cannot remove a line terminator from the rest of the line.
  \<open>envVarMatch\<close> returns the two groups \<open>(key, value)\<close>, or \<open>None\<close> for \<open>null\<close>.
\<close>

definition isKeyStart :: "jschar \<Rightarrow> bool" where
  "isKeyStart c = ((0x41 \<le> c \<and> c \<le> 0x5A) \<or> (0x61 \<le> c \<and> c \<le> 0x7A) \<or> c = 0x5F)"

definition isKeyChar :: "jschar \<Rightarrow> bool" where
  "isKeyChar c = (isKeyStart c \<or> (0x30 \<le> c \<and> c \<le> 0x39))"

definition envVarMatch :: "jsstring \<Rightarrow> (jsstring \<times> jsstring) option" where
  "envVarMatch line =
     (case line of
        [] \<Rightarrow> None
      | c # cs \<Rightarrow>
          if isKeyStart c then
            (case dropWhile isSpace (dropWhile isKeyChar cs) of
               [] \<Rightarrow> None
             | e # rest \<Rightarrow>
                 if e = 0x3D \<and> \<not> list_ex isLineTerminator (dropWhile isSpace rest)
                 then Some (c # takeWhile isKeyChar cs, dropWhile isSpace rest)
                 else None)
          else None)"

subsection \<open>The placeholder heuristic\<close>

definition isPlaceholder :: "jsstring \<Rightarrow> bool" where
  "isPlaceholder v =
     (v = [] \<or>
      v = js [CHR 0x22, CHR 0x22] \<or>
      v = js [CHR 0x27, CHR 0x27] \<or>
      js_includes v (js ''your-'') \<or>
      js_includes v (js ''YOUR_'') \<or>
      js_includes v (js ''example'') \<or>
      js_includes v (js ''EXAMPLE'') \<or>
      js_includes v (js ''placeholder'') \<or>
      js_includes v (js ''PLACEHOLDER'') \<or>
      js_includes v (js ''change-me'') \<or>
      js_includes v (js ''CHANGE_ME'') \<or>
      js_includes v (js ''xxx'') \<or>
      js_includes v (js ''XXX''))"

subsection \<open>The loop over the lines\<close>

text \<open>The local variables of \<open>processTemplateContent\<close> that the loop updates.\<close>

record loop_state =
  snippetLines :: "jsstring list"
  tabStopIndex :: nat
  hasTabStops :: bool
  firstValuePosition :: "nat option"
  currentPosition :: nat

definition init_state :: loop_state where
  "init_state =
     \<lparr>snippetLines = [], tabStopIndex = 1, hasTabStops = False,
      firstValuePosition = None, currentPosition = 0\<rparr>"

text \<open>The line that replaces a placeholder assignment:
  \<open>`${keyPart}\${${tabStopIndex}:${value}}`\<close> with \<open>keyPart = `${key}=`\<close>.\<close>

definition tabStopLine :: "jsstring \<Rightarrow> nat \<Rightarrow> jsstring \<Rightarrow> jsstring" where
  "tabStopLine key i v =
     (key @ js ''='') @ js ''${'' @ numToString i @ js '':'' @ v @ js ''}''"

text \<open>One iteration of \<open>for (const line of lines)\<close>.\<close>

definition step :: "loop_state \<Rightarrow> jsstring \<Rightarrow> loop_state" where
  "step s line =
     (let s' =
        (case envVarMatch line of
           Some (key, v) \<Rightarrow>
             if isPlaceholder v then
               s\<lparr>snippetLines := snippetLines s @ [tabStopLine key (tabStopIndex s) v],
                 hasTabStops := True,
                 firstValuePosition :=
                   (if hasTabStops s then firstValuePosition s
                    else Some (currentPosition s + length (key @ js ''=''))),
                 tabStopIndex := tabStopIndex s + 1\<rparr>
             else s\<lparr>snippetLines := snippetLines s @ [line]\<rparr>
         | None \<Rightarrow> s\<lparr>snippetLines := snippetLines s @ [line]\<rparr>)
      in s'\<lparr>currentPosition := currentPosition s + length line + 1\<rparr>)"

text \<open>The returned object. Its fields \<open>hasTabStops\<close> and \<open>firstValuePosition\<close> carry
  the prefix \<open>result\<close> here, the plain names being the loop's variables.\<close>

record processed =
  content :: jsstring
  snippetContent :: jsstring
  resultHasTabStops :: bool
  resultFirstValuePosition :: "nat option"

definition processTemplateContent :: "jsstring \<Rightarrow> processed" where
  "processTemplateContent c =
     (let s = foldl step init_state (js_split c) in
      \<lparr>content = c,
       snippetContent = js_join (snippetLines s),
       resultHasTabStops = hasTabStops s,
       resultFirstValuePosition = firstValuePosition s\<rparr>)"

text \<open>The lines on which the loop takes the tab-stop branch.\<close>

definition isPlaceholderLine :: "jsstring \<Rightarrow> bool" where
  "isPlaceholderLine l =
     (case envVarMatch l of Some (key, v) \<Rightarrow> isPlaceholder v | None \<Rightarrow> False)"

text \<open>What one iteration pushes to \<open>snippetLines\<close> when the stop index stands at \<open>i\<close>.\<close>

definition emit :: "nat \<Rightarrow> jsstring \<Rightarrow> jsstring" where
  "emit i l =
     (case envVarMatch l of
        Some (key, v) \<Rightarrow> if isPlaceholder v then tabStopLine key i v else l
      | None \<Rightarrow> l)"

text \<open>The lines the loop pushes for the lines \<open>ls\<close>, when it starts with the stop index
  at \<open>i\<close>: the index has moved past every placeholder line seen so far.\<close>

definition emittedFrom :: "nat \<Rightarrow> jsstring list \<Rightarrow> jsstring list" where
  "emittedFrom i ls =
     map (\<lambda>j. emit (i + length (filter isPlaceholderLine (take j ls))) (ls ! j)) [0..<length ls]"

subsection \<open>The specification's notions\<close>

text \<open>
  The specification's reading of the heuristic: the value is empty, is one of the two
  empty-quoted forms, or has one of the ten tokens as a substring, where a substring is
  said with an explicit decomposition of the value.
\<close>

definition spec_tokens :: "jsstring list" where
  "spec_tokens =
     [js ''your-'', js ''YOUR_'', js ''example'', js ''EXAMPLE'', js ''placeholder'',
      js ''PLACEHOLDER'', js ''change-me'', js ''CHANGE_ME'', js ''xxx'', js ''XXX'']"

definition spec_isPlaceholder :: "jsstring \<Rightarrow> bool" where
  "spec_isPlaceholder v =
     (v = [] \<or> v = js [CHR 0x22, CHR 0x22] \<or> v = js [CHR 0x27, CHR 0x27] \<or>
      (\<exists>t \<in> set spec_tokens. \<exists>ps ss. v = ps @ t @ ss))"

text \<open>
  The stop index the specification gives line \<open>j\<close>: its rank among the placeholder
  lines, counted from 1 in file order. \<open>spec_emitted\<close> is the line the specification
  expects in place of line \<open>j\<close>.
\<close>

definition placeholderRank :: "jsstring list \<Rightarrow> nat \<Rightarrow> nat" where
  "placeholderRank ls j = length (filter isPlaceholderLine (take (Suc j) ls))"

definition spec_emitted :: "jsstring list \<Rightarrow> nat \<Rightarrow> jsstring" where
  "spec_emitted ls j =
     (case envVarMatch (ls ! j) of
        Some (key, v) \<Rightarrow>
          if isPlaceholder v
          then key @ js ''='' @ js ''${'' @ numToString (placeholderRank ls j) @ js '':'' @ v @ js ''}''
          else ls ! j
      | None \<Rightarrow> ls ! j)"

text \<open>
  The stop markers that a text contains, read off the text itself: every place where
  \<open>${\<close>, one or more decimal digits and \<open>:\<close> follow one another, which is the form the
  processor emits. The result lists the indices in text order.
\<close>

definition isDigit :: "jschar \<Rightarrow> bool" where
  "isDigit c = (0x30 \<le> c \<and> c \<le> 0x39)"

definition digitsToNat :: "jsstring \<Rightarrow> nat" where
  "digitsToNat ds = foldl (\<lambda>a d. 10 * a + unat (d - 0x30)) 0 ds"

definition markerAt :: "jsstring \<Rightarrow> bool" where
  "markerAt t =
     (js_startsWith t (js ''${'') \<and> takeWhile isDigit (drop 2 t) \<noteq> [] \<and>
      js_startsWith (dropWhile isDigit (drop 2 t)) (js '':''))"

definition markerIndex :: "jsstring \<Rightarrow> nat" where
  "markerIndex t = digitsToNat (takeWhile isDigit (drop 2 t))"

fun stopMarkers :: "jsstring \<Rightarrow> nat list" where
  "stopMarkers [] = []"
| "stopMarkers (c # cs) =
     (if markerAt (c # cs) then [markerIndex (c # cs)] else []) @ stopMarkers cs"

text \<open>A character that no marker holds: appended to a text, with anything after it, it
  neither completes nor breaks a marker of the text.\<close>

definition outsideMarker :: "jschar \<Rightarrow> bool" where
  "outsideMarker x = (x \<noteq> 0x24 \<and> x \<noteq> 0x7B \<and> x \<noteq> 0x3A \<and> \<not> isDigit x)"

text \<open>
  The offset at which line \<open>j\<close> starts in the text: the length of every line before it,
  plus one newline for each.
\<close>

definition lineOffset :: "jsstring list \<Rightarrow> nat \<Rightarrow> nat" where
  "lineOffset ls j = sum_list (map (\<lambda>l. length l + 1) (take j ls))"

text \<open>
  The specification's first-value offset: in the original text, the position right
  after the \<open>=\<close> sign of the first placeholder line. The key and the white space after
  it hold no \<open>=\<close>, so the sign of the assignment is the first \<open>=\<close> of the line.
\<close>

fun spec_offsetFrom :: "nat \<Rightarrow> jsstring list \<Rightarrow> nat option" where
  "spec_offsetFrom off [] = None"
| "spec_offsetFrom off (l # ls) =
     (if isPlaceholderLine l then Some (off + length (takeWhile (\<lambda>x. x \<noteq> 0x3D) l) + 1)
      else spec_offsetFrom (off + length l + 1) ls)"

definition spec_firstValueOffset :: "jsstring \<Rightarrow> nat option" where
  "spec_firstValueOffset c = spec_offsetFrom 0 (js_split c)"

section \<open>The file system, the user and the editor\<close>

text \<open>
  A path is the list of its components; \<open>path.join(dir, name)\<close> appends a component,
  \<open>path.dirname\<close> drops the last one, \<open>path.basename\<close> is the last one and
  \<open>path.relative(root, file)\<close> drops the components of \<open>root\<close> from a file below it.
\<close>

type_synonym path = "jsstring list"

text \<open>
  What \<open>fs.readdirSync\<close> and \<open>fs.statSync\<close> report below a directory. \<open>statSync\<close> on an
  entry answers a regular file, a directory, something else (a socket, a device), or
  throws (\<open>StatFails\<close>: a dangling symbolic link, an entry removed since the listing,
  a directory without search permission). \<open>readdirSync\<close> on a directory returns the
  names of its entries (here each with what \<open>statSync\<close> finds there), or throws
  (\<open>Directory None\<close>); on anything that is not a directory it throws.
\<close>

datatype node =
    RegularFile
  | Special
  | StatFails
  | Directory "(jsstring \<times> node) list option"

datatype js_error = Error jsstring

text \<open>
  The file system as the command meets it: \<open>tree\<close> is what the first workspace folder
  shows to \<open>readdirSync\<close> and \<open>statSync\<close>; \<open>files\<close> is what \<open>existsSync\<close> and
  \<open>readFileSync\<close> find at a path; \<open>writeError\<close> is the exception \<open>writeFileSync\<close> would
  throw there. A write that succeeds changes \<open>files\<close> at its path.
\<close>

datatype file_state = Absent | Present jsstring | Unreadable js_error

record filesystem =
  tree :: node
  files :: "path \<Rightarrow> file_state"
  writeError :: "path \<Rightarrow> js_error option"

definition existsSync :: "filesystem \<Rightarrow> path \<Rightarrow> bool" where
  "existsSync fs p = (files fs p \<noteq> Absent)"

definition readFileSync :: "filesystem \<Rightarrow> path \<Rightarrow> js_error + jsstring" where
  "readFileSync fs p =
     (case files fs p of
        Present c \<Rightarrow> Inr c
      | Absent \<Rightarrow> Inl (Error (js ''ENOENT''))
      | Unreadable e \<Rightarrow> Inl e)"

definition writeFileSync :: "filesystem \<Rightarrow> path \<Rightarrow> jsstring \<Rightarrow> js_error + filesystem" where
  "writeFileSync fs p c =
     (case writeError fs p of
        Some e \<Rightarrow> Inl e
      | None \<Rightarrow> Inr (fs\<lparr>files := (files fs)(p := Present c)\<rparr>))"

text \<open>
  The prompts are answered by the user: the item picked among the templates, the button
  pressed when the target exists, the button pressed when \<open>.env\<close> is not ignored. \<open>None\<close>
  is a dismissed prompt (\<open>undefined\<close>).
\<close>

record quickPickItem =
  label :: jsstring
  description :: path

datatype existing_choice = OpenExisting | Overwrite | Cancel

datatype gitignore_choice = Yes | No

record user =
  showQuickPick :: "quickPickItem list \<Rightarrow> quickPickItem option"
  existingAction :: "existing_choice option"
  addToGitignore :: "gitignore_choice option"

text \<open>What a run does to the world, in order, and how it ends: \<open>thrown\<close> is the
  exception that leaves the function, if any.\<close>

datatype effect =
    ShowErrorMessage jsstring
  | ShowInformationMessage jsstring
  | WriteFile path jsstring
  | OpenTextDocument path
  | ShowTextDocument path
  | DeleteAllText
  | InsertSnippet jsstring

record outcome =
  fsAfter :: filesystem
  effects :: "effect list"
  thrown :: "js_error option"

section \<open>The template locator\<close>

definition templatePatterns :: "jsstring list" where
  "templatePatterns =
     [js ''.env.example'', js ''.env.template'', js ''.env.sample'', js ''.env.dist'']"

text \<open>
  \<open>searchDirectory\<close> is the inner function, with the array \<open>templates\<close> it pushes to
  passed in and returned. \<open>searchEntries\<close> is its \<open>for\<close> loop: the equations are the
  answers of \<open>statSync\<close> on the next entry, and the flag tells whether the loop ran to
  its end (\<open>True\<close>) or was left by an exception (\<open>False\<close>). The \<open>try\<close> block of
  \<open>searchDirectory\<close> holds the whole loop and its \<open>catch\<close> block is empty, so the flag
  is dropped there; what was pushed before the exception stays in the array.
\<close>

fun searchDirectory :: "path \<Rightarrow> node \<Rightarrow> path list \<Rightarrow> path list"
  and searchEntries :: "path \<Rightarrow> (jsstring \<times> node) list \<Rightarrow> path list \<Rightarrow> bool \<times> path list"
where
  "searchDirectory dirPath (Directory (Some entries)) templates =
     snd (searchEntries dirPath entries templates)"
| "searchDirectory dirPath (Directory None) templates = templates"
| "searchDirectory dirPath RegularFile templates = templates"
| "searchDirectory dirPath Special templates = templates"
| "searchDirectory dirPath StatFails templates = templates"
| "searchEntries dirPath [] templates = (True, templates)"
| "searchEntries dirPath ((file, StatFails) # rest) templates = (False, templates)"
| "searchEntries dirPath ((file, Directory l) # rest) templates =
     (if \<not> js_startsWith file (js ''.'') \<and> file \<noteq> js ''node_modules''
      then searchEntries dirPath rest
             (searchDirectory (dirPath @ [file]) (Directory l) templates)
      else searchEntries dirPath rest templates)"
| "searchEntries dirPath ((file, RegularFile) # rest) templates =
     (if List.member templatePatterns file
      then searchEntries dirPath rest (templates @ [dirPath @ [file]])
      else searchEntries dirPath rest templates)"
| "searchEntries dirPath ((file, Special) # rest) templates =
     searchEntries dirPath rest templates"

definition findTemplateFiles :: "path \<Rightarrow> node \<Rightarrow> path list" where
  "findTemplateFiles rootPath root = searchDirectory rootPath root []"

subsection \<open>The specification's notions\<close>

text \<open>
  Every regular file of a tree, at any depth, as its path from the root of the tree, in
  listing order. A directory that cannot be listed has no files to show.
\<close>

fun filesOf :: "node \<Rightarrow> path list"
  and filesOfEntries :: "(jsstring \<times> node) list \<Rightarrow> path list"
where
  "filesOf (Directory (Some entries)) = filesOfEntries entries"
| "filesOf (Directory None) = []"
| "filesOf RegularFile = []"
| "filesOf Special = []"
| "filesOf StatFails = []"
| "filesOfEntries [] = []"
| "filesOfEntries ((file, RegularFile) # rest) = [file] # filesOfEntries rest"
| "filesOfEntries ((file, Directory l) # rest) =
     map ((#) file) (filesOf (Directory l)) @ filesOfEntries rest"
| "filesOfEntries ((file, Special) # rest) = filesOfEntries rest"
| "filesOfEntries ((file, StatFails) # rest) = filesOfEntries rest"

text \<open>A directory name that hides what is below it, and the files the specification
  wants found: an allow-listed base name, and no such directory on the way.\<close>

definition excludedName :: "jsstring \<Rightarrow> bool" where
  "excludedName d = (js_startsWith d (js ''.'') \<or> d = js ''node_modules'')"

definition insideExcluded :: "path \<Rightarrow> bool" where
  "insideExcluded p = list_ex excludedName (butlast p)"

definition wanted :: "path \<Rightarrow> bool" where
  "wanted p = (List.member templatePatterns (last p) \<and> \<not> insideExcluded p)"

text \<open>
  The trees on which the traversal meets no failing \<open>statSync\<close>: no entry of a directory
  it lists is \<open>StatFails\<close>. Directories it does not enter are not looked at.
  \<open>distinctNames\<close> says that no listing names an entry twice.
\<close>

fun statSucceeds :: "node \<Rightarrow> bool"
  and statSucceedsEntries :: "(jsstring \<times> node) list \<Rightarrow> bool"
where
  "statSucceeds (Directory (Some entries)) = statSucceedsEntries entries"
| "statSucceeds (Directory None) = True"
| "statSucceeds RegularFile = True"
| "statSucceeds Special = True"
| "statSucceeds StatFails = True"
| "statSucceedsEntries [] = True"
| "statSucceedsEntries ((file, StatFails) # rest) = False"
| "statSucceedsEntries ((file, Directory l) # rest) =
     ((excludedName file \<or> statSucceeds (Directory l)) \<and> statSucceedsEntries rest)"
| "statSucceedsEntries ((file, RegularFile) # rest) = statSucceedsEntries rest"
| "statSucceedsEntries ((file, Special) # rest) = statSucceedsEntries rest"

fun distinctNames :: "node \<Rightarrow> bool"
  and distinctNamesEntries :: "(jsstring \<times> node) list \<Rightarrow> bool"
where
  "distinctNames (Directory (Some entries)) =
     (distinct (map fst entries) \<and> distinctNamesEntries entries)"
| "distinctNames (Directory None) = True"
| "distinctNames RegularFile = True"
| "distinctNames Special = True"
| "distinctNames StatFails = True"
| "distinctNamesEntries [] = True"
| "distinctNamesEntries ((file, Directory l) # rest) =
     (distinctNames (Directory l) \<and> distinctNamesEntries rest)"
| "distinctNamesEntries ((file, RegularFile) # rest) = distinctNamesEntries rest"
| "distinctNamesEntries ((file, Special) # rest) = distinctNamesEntries rest"
| "distinctNamesEntries ((file, StatFails) # rest) = distinctNamesEntries rest"

section \<open>The ignore-file updater\<close>

text \<open>\<open>lines.some(line => ...)\<close> over \<open>gitignoreContent.split('\n')\<close>.\<close>

definition hasEnv :: "jsstring \<Rightarrow> bool" where
  "hasEnv gitignoreContent =
     list_ex
       (\<lambda>line. let trimmed = js_trim line in
          trimmed = js ''.env'' \<or> trimmed = js ''/.env'' \<or> trimmed = js ''*.env'')
       (js_split gitignoreContent)"

definition newGitignoreContent :: "jsstring \<Rightarrow> jsstring" where
  "newGitignoreContent gitignoreContent =
     gitignoreContent @ (if js_endsWith gitignoreContent [0x0A] then [] else [0x0A]) @
     js ''.env'' @ [0x0A]"

text \<open>
  \<open>checkGitignore\<close>: an exception of \<open>readFileSync\<close> or \<open>writeFileSync\<close> leaves the
  function, for the caller to catch.
\<close>

definition checkGitignore :: "user \<Rightarrow> path \<Rightarrow> filesystem \<Rightarrow> outcome" where
  "checkGitignore u workspaceRoot fs =
     (let gitignorePath = workspaceRoot @ [js ''.gitignore''] in
      case (if existsSync fs gitignorePath then readFileSync fs gitignorePath else Inr []) of
        Inl e \<Rightarrow> \<lparr>fsAfter = fs, effects = [], thrown = Some e\<rparr>
      | Inr gitignoreContent \<Rightarrow>
          if hasEnv gitignoreContent then \<lparr>fsAfter = fs, effects = [], thrown = None\<rparr>
          else
            (case addToGitignore u of
               Some Yes \<Rightarrow>
                 (case writeFileSync fs gitignorePath (newGitignoreContent gitignoreContent) of
                    Inl e \<Rightarrow> \<lparr>fsAfter = fs, effects = [], thrown = Some e\<rparr>
                  | Inr fs' \<Rightarrow>
                      \<lparr>fsAfter = fs',
                       effects =
                         [WriteFile gitignorePath (newGitignoreContent gitignoreContent),
                          ShowInformationMessage (js ''.env added to .gitignore'')],
                       thrown = None\<rparr>)
             | Some No \<Rightarrow> \<lparr>fsAfter = fs, effects = [], thrown = None\<rparr>
             | None \<Rightarrow> \<lparr>fsAfter = fs, effects = [], thrown = None\<rparr>))"

section \<open>The orchestrator\<close>

text \<open>
  The \<open>try\<close> block of the command: read the template, write the target, open it, insert
  the snippet when there are tab stops, update the ignore file. Whatever is thrown inside
  is caught and shown as one error message; what was done before stays done.
  Opening and showing a document and editing it are taken to succeed. An \<open>Error\<close>
  carries the text that \<open>${error}\<close> prints.
\<close>

definition copyTemplate :: "user \<Rightarrow> path \<Rightarrow> path \<Rightarrow> path \<Rightarrow> filesystem \<Rightarrow> outcome" where
  "copyTemplate u workspaceRoot selectedTemplate envPath fs =
     (let failed = (\<lambda>fs' done e.
            \<lparr>fsAfter = fs',
             effects = done @ [ShowErrorMessage (js ''Failed to create .env file: '' @
                                  (case e of Error msg \<Rightarrow> msg))],
             thrown = None\<rparr>) in
      case readFileSync fs selectedTemplate of
        Inl e \<Rightarrow> failed fs [] e
      | Inr templateContent \<Rightarrow>
          (let processedContent = processTemplateContent templateContent in
           case writeFileSync fs envPath (content processedContent) of
             Inl e \<Rightarrow> failed fs [] e
           | Inr fs1 \<Rightarrow>
               (let done =
                      [WriteFile envPath (content processedContent),
                       OpenTextDocument envPath, ShowTextDocument envPath] @
                      (if resultHasTabStops processedContent
                       then [DeleteAllText, InsertSnippet (snippetContent processedContent)]
                       else []) @
                      [ShowInformationMessage (js ''.env file created successfully'')];
                    g = checkGitignore u workspaceRoot fs1
                in case thrown g of
                     Some e \<Rightarrow> failed (fsAfter g) (done @ effects g) e
                   | None \<Rightarrow>
                       \<lparr>fsAfter = fsAfter g, effects = done @ effects g, thrown = None\<rparr>)))"

text \<open>
  The command \<open>env-creator.createEnv\<close>, given \<open>vscode.workspace.workspaceFolders\<close> (the
  paths of the folders, or \<open>None\<close> for \<open>undefined\<close>). With an empty array,
  \<open>workspaceFolders[0].uri\<close> throws a \<open>TypeError\<close> that nothing catches.
  \<open>selectTemplate\<close> is the choice of \<open>selectedTemplate\<close>: the only template, or the one
  the user picks; \<open>None\<close> is the \<open>return\<close> on a dismissed pick.
\<close>

definition selectTemplate :: "user \<Rightarrow> path \<Rightarrow> path list \<Rightarrow> path option" where
  "selectTemplate u workspaceRoot templateFiles =
     (if length templateFiles = 1 then Some (templateFiles ! 0)
      else
        (case showQuickPick u
                (map (\<lambda>file. \<lparr>label = last file,
                               description = drop (length workspaceRoot) file\<rparr>)
                   templateFiles) of
           None \<Rightarrow> None
         | Some selected \<Rightarrow> Some (workspaceRoot @ description selected)))"

definition createEnv :: "user \<Rightarrow> path list option \<Rightarrow> filesystem \<Rightarrow> outcome" where
  "createEnv u workspaceFolders fs =
     (case workspaceFolders of
        None \<Rightarrow>
          \<lparr>fsAfter = fs, effects = [ShowErrorMessage (js ''No workspace folder open'')],
           thrown = None\<rparr>
      | Some [] \<Rightarrow> \<lparr>fsAfter = fs, effects = [], thrown = Some (Error (js ''TypeError''))\<rparr>
      | Some (workspaceRoot # others) \<Rightarrow>
          (let templateFiles = findTemplateFiles workspaceRoot (tree fs) in
           if length templateFiles = 0 then
             \<lparr>fsAfter = fs,
              effects = [ShowErrorMessage
                (js ''No .env template files found (e.g., .env.example, .env.template)'')],
              thrown = None\<rparr>
           else
             (case selectTemplate u workspaceRoot templateFiles of
                None \<Rightarrow> \<lparr>fsAfter = fs, effects = [], thrown = None\<rparr>
              | Some selectedTemplate \<Rightarrow>
                  (let envPath = butlast selectedTemplate @ [js ''.env''] in
                   if existsSync fs envPath then
                     (case existingAction u of
                        Some OpenExisting \<Rightarrow>
                          \<lparr>fsAfter = fs,
                           effects = [OpenTextDocument envPath, ShowTextDocument envPath],
                           thrown = None\<rparr>
                      | Some Overwrite \<Rightarrow>
                          copyTemplate u workspaceRoot selectedTemplate envPath fs
                      | Some Cancel \<Rightarrow> \<lparr>fsAfter = fs, effects = [], thrown = None\<rparr>
                      | None \<Rightarrow> \<lparr>fsAfter = fs, effects = [], thrown = None\<rparr>)
                   else copyTemplate u workspaceRoot selectedTemplate envPath fs))))"

text \<open>The writes among the effects of a run.\<close>

fun isWrite :: "effect \<Rightarrow> bool" where
  "isWrite (WriteFile p c) = True"
| "isWrite e = False"

text \<open>
  The content the updater starts from: the content of the ignore-rules file, or the
  empty string when there is no such file.
\<close>

definition priorContent :: "filesystem \<Rightarrow> path \<Rightarrow> jsstring \<Rightarrow> bool" where
  "priorContent fs workspaceRoot c =
     (files fs (workspaceRoot @ [js ''.gitignore'']) = Present c \<or>
      files fs (workspaceRoot @ [js ''.gitignore'']) = Absent \<and> c = [])"

section \<open>Example worlds\<close>

text \<open>
  A workspace \<open>w\<close> with a template at its root and one in \<open>api\<close>, and one with a
  single template next to an existing \<open>.env\<close>; a user who dismisses the template pick,
  cancels at the existing target and agrees to the ignore entry.
\<close>

definition demo_user :: user where
  "demo_user = \<lparr>showQuickPick = (\<lambda>items. None), existingAction = Some Cancel,
                 addToGitignore = Some Yes\<rparr>"

definition demo_fs :: "jsstring \<Rightarrow> filesystem" where
  "demo_fs gitignore =
     \<lparr>tree = Directory (Some [(js ''.env.example'', RegularFile),
                              (js ''api'', Directory (Some [(js ''.env.sample'', RegularFile)]))]),
      files = (\<lambda>p. if p = [js ''w'', js ''.gitignore''] then Present gitignore
                    else if p = [js ''w'', js ''.env.example''] then Present (js ''A=xxx'')
                    else if p = [js ''w'', js ''.env''] then Present (js ''A=1'')
                    else Absent),
      writeError = (\<lambda>p. None)\<rparr>"

definition demo_single :: filesystem where
  "demo_single =
     \<lparr>tree = Directory (Some [(js ''.env.example'', RegularFile)]),
      files = (\<lambda>p. if p = [js ''w'', js ''.env.example''] then Present (js ''A=xxx'')
                    else if p = [js ''w'', js ''.env''] then Present (js ''A=1'')
                    else Absent),
      writeError = (\<lambda>p. None)\<rparr>"

section \<open>Facts about the strings\<close>

lemmas char_defs =
  js_def isSpace_def isWhiteSpace_def isLineTerminator_def isKeyStart_def isKeyChar_def
  isDigit_def

lemmas processor_defs =
  envVarMatch_def isPlaceholder_def isPlaceholderLine_def processTemplateContent_def
  step_def init_state_def tabStopLine_def Let_def

lemma js_startsWith_iff: "js_startsWith s t \<longleftrightarrow> (\<exists>ss. s = t @ ss)"
  by (induction s t rule: js_startsWith.induct) auto

lemma js_includes_iff: "js_includes v t \<longleftrightarrow> (\<exists>ps ss. v = ps @ t @ ss)"
proof (induction v)
  case Nil
  then show ?case by simp
next
  case (Cons c cs)
  show ?case
  proof
    assume "js_includes (c # cs) t"
    then consider "js_startsWith (c # cs) t" | "js_includes cs t" by auto
    then show "\<exists>ps ss. c # cs = ps @ t @ ss"
    proof cases
      case 1
      then obtain ss where "c # cs = t @ ss" by (auto simp: js_startsWith_iff)
      then have "c # cs = [] @ t @ ss" by simp
      then show ?thesis by blast
    next
      case 2
      then obtain ps ss where "cs = ps @ t @ ss" using Cons.IH by auto
      then have "c # cs = (c # ps) @ t @ ss" by simp
      then show ?thesis by blast
    qed
  next
    assume "\<exists>ps ss. c # cs = ps @ t @ ss"
    then obtain ps ss where eq: "c # cs = ps @ t @ ss" by auto
    show "js_includes (c # cs) t"
    proof (cases ps)
      case Nil
      then have "js_startsWith (c # cs) t" using eq by (auto simp: js_startsWith_iff)
      then show ?thesis by simp
    next
      case (Cons p ps')
      then have "cs = ps' @ t @ ss" using eq by simp
      then have "js_includes cs t" using Cons.IH by auto
      then show ?thesis by simp
    qed
  qed
qed

lemma js_split_not_Nil: "js_split s \<noteq> []"
  by (induction s) (auto split: list.splits)

lemma js_join_Cons: "js_join (l # ls) = (if ls = [] then l else l @ 0x0A # js_join ls)"
  by (cases ls) simp_all

lemma js_join_split: "js_join (js_split s) = s"
proof (induction s)
  case Nil
  then show ?case by simp
next
  case (Cons c cs)
  then show ?case
    by (cases "js_split cs") (auto simp: js_split_not_Nil js_join_Cons)
qed

section \<open>Facts about the assignment pattern\<close>

lemma space_not_key: "isSpace x \<Longrightarrow> \<not> isKeyChar x"
  unfolding isSpace_def isWhiteSpace_def isLineTerminator_def isKeyChar_def isKeyStart_def
  by (auto simp: word_le_nat_alt)

lemma eq_not_key: "\<not> isKeyChar 0x3D"
  unfolding isKeyChar_def isKeyStart_def by simp

lemma eq_not_space: "\<not> isSpace 0x3D"
  unfolding isSpace_def isWhiteSpace_def isLineTerminator_def by simp

lemma keyStart_keyChar: "isKeyStart x \<Longrightarrow> isKeyChar x"
  by (simp add: isKeyChar_def)

text \<open>
  What a match is, said without the scan: the line is a key, white space, \<open>=\<close>, white
  space and the value, the value holds no line terminator and, the white space before it
  being taken whole, does not start with white space.
\<close>

lemma envVarMatch_iff:
  "envVarMatch line = Some (key, v) \<longleftrightarrow>
     (\<exists>ws1 ws2. line = key @ ws1 @ [0x3D] @ ws2 @ v \<and>
        key \<noteq> [] \<and> isKeyStart (hd key) \<and> list_all isKeyChar key \<and>
        list_all isSpace ws1 \<and> list_all isSpace ws2 \<and>
        \<not> list_ex isLineTerminator v \<and> (v = [] \<or> \<not> isSpace (hd v)))"
  (is "?L \<longleftrightarrow> ?R")
proof
  assume L: ?L
  then obtain c cs where line: "line = c # cs" and c: "isKeyStart c"
    by (auto simp: envVarMatch_def split: list.splits if_splits)
  from L line c obtain rest where
    r: "dropWhile isSpace (dropWhile isKeyChar cs) = 0x3D # rest" and
    nolt: "\<not> list_ex isLineTerminator (dropWhile isSpace rest)" and
    key: "key = c # takeWhile isKeyChar cs" and v: "v = dropWhile isSpace rest"
    by (auto simp: envVarMatch_def split: list.splits if_splits)
  let ?ws1 = "takeWhile isSpace (dropWhile isKeyChar cs)"
  let ?ws2 = "takeWhile isSpace rest"
  have "cs = takeWhile isKeyChar cs @ ?ws1 @ dropWhile isSpace (dropWhile isKeyChar cs)"
    by simp
  also have "dropWhile isSpace (dropWhile isKeyChar cs) = [0x3D] @ ?ws2 @ v"
    using r v by simp
  finally have f1: "line = key @ ?ws1 @ [0x3D] @ ?ws2 @ v"
    using line key by simp
  have f2: "list_all isKeyChar key"
    using key c by (auto simp: keyStart_keyChar list_all_iff dest: set_takeWhileD)
  have f3: "list_all isSpace ?ws1" "list_all isSpace ?ws2"
    by (auto simp: list_all_iff dest: set_takeWhileD)
  have f4: "v = [] \<or> \<not> isSpace (hd v)"
    unfolding v by (metis hd_dropWhile)
  have f5: "key \<noteq> []" "isKeyStart (hd key)" "\<not> list_ex isLineTerminator v"
    using key c nolt v by simp_all
  show ?R
    using f1 f2 f3 f4 f5 by blast
next
  assume ?R
  then obtain ws1 ws2 where line: "line = key @ ws1 @ [0x3D] @ ws2 @ v"
    and k: "key \<noteq> []" "isKeyStart (hd key)" "list_all isKeyChar key"
    and ws: "list_all isSpace ws1" "list_all isSpace ws2"
    and v: "\<not> list_ex isLineTerminator v" "v = [] \<or> \<not> isSpace (hd v)"
    by blast
  from k obtain c k' where key: "key = c # k'" by (cases key) auto
  let ?cs = "k' @ ws1 @ [0x3D] @ ws2 @ v"
  have k': "\<And>x. x \<in> set k' \<Longrightarrow> isKeyChar x" using k key by (simp add: list_all_iff)
  have w1: "\<And>x. x \<in> set ws1 \<Longrightarrow> isSpace x" using ws by (simp add: list_all_iff)
  have w2: "\<And>x. x \<in> set ws2 \<Longrightarrow> isSpace x" using ws by (simp add: list_all_iff)
  have nk: "takeWhile isKeyChar (ws1 @ [0x3D] @ ws2 @ v) = []"
    by (cases ws1) (use w1 in \<open>auto simp: eq_not_key space_not_key\<close>)
  have t: "takeWhile isKeyChar ?cs = k'"
    using k' nk by simp
  have nk': "dropWhile isKeyChar (ws1 @ [0x3D] @ ws2 @ v) = ws1 @ [0x3D] @ ws2 @ v"
    by (cases ws1) (use w1 in \<open>auto simp: eq_not_key space_not_key\<close>)
  have d: "dropWhile isKeyChar ?cs = ws1 @ [0x3D] @ ws2 @ v"
    using k' nk' by simp
  have d2: "dropWhile isSpace (ws1 @ [0x3D] @ ws2 @ v) = 0x3D # ws2 @ v"
    using w1 by (simp add: eq_not_space)
  have dv: "dropWhile isSpace v = v" using v(2) by (cases v) auto
  have d3: "dropWhile isSpace (ws2 @ v) = v"
    using w2 dv by simp
  show ?L
    using line key k(2) t d d2 d3 v(1) by (simp add: envVarMatch_def)
qed

lemma isPlaceholder_spec: "isPlaceholder v \<longleftrightarrow> spec_isPlaceholder v"
  unfolding isPlaceholder_def spec_isPlaceholder_def spec_tokens_def js_includes_iff
  by auto

section \<open>Facts about the loop\<close>

lemma step_snippetLines:
  "snippetLines (step s l) = snippetLines s @ [emit (tabStopIndex s) l]"
  by (simp add: step_def emit_def Let_def split: option.splits prod.splits)

lemma step_tabStopIndex:
  "tabStopIndex (step s l) = tabStopIndex s + (if isPlaceholderLine l then 1 else 0)"
  by (simp add: step_def isPlaceholderLine_def Let_def split: option.splits prod.splits)

lemma step_hasTabStops: "hasTabStops (step s l) = (hasTabStops s \<or> isPlaceholderLine l)"
  by (simp add: step_def isPlaceholderLine_def Let_def split: option.splits prod.splits)

lemma step_currentPosition: "currentPosition (step s l) = currentPosition s + length l + 1"
  by (simp add: step_def Let_def split: option.splits prod.splits)

lemma step_firstValuePosition:
  "firstValuePosition (step s l) =
     (case envVarMatch l of
        Some (key, v) \<Rightarrow>
          if isPlaceholder v \<and> \<not> hasTabStops s then Some (currentPosition s + length key + 1)
          else firstValuePosition s
      | None \<Rightarrow> firstValuePosition s)"
  by (simp add: step_def Let_def js_def split: option.splits prod.splits)

lemma fold_currentPosition:
  "currentPosition (foldl step s ls) = currentPosition s + lineOffset ls (length ls)"
  by (induction ls arbitrary: s) (simp_all add: lineOffset_def step_currentPosition)

lemma fold_tabStopIndex:
  "tabStopIndex (foldl step s ls) = tabStopIndex s + length (filter isPlaceholderLine ls)"
  by (induction ls arbitrary: s) (simp_all add: step_tabStopIndex)

lemma fold_hasTabStops:
  "hasTabStops (foldl step s ls) = (hasTabStops s \<or> list_ex isPlaceholderLine ls)"
  by (induction ls arbitrary: s) (simp_all add: step_hasTabStops)

lemma fold_snippetLines:
  "snippetLines (foldl step s ls) =
     snippetLines s @
     map (\<lambda>j. emit (tabStopIndex s + length (filter isPlaceholderLine (take j ls))) (ls ! j))
       [0..<length ls]"
proof (induction ls rule: rev_induct)
  case Nil
  then show ?case by simp
next
  case (snoc l ls)
  have "map (\<lambda>j. emit (tabStopIndex s + length (filter isPlaceholderLine (take j (ls @ [l]))))
              ((ls @ [l]) ! j)) [0..<length ls] =
        map (\<lambda>j. emit (tabStopIndex s + length (filter isPlaceholderLine (take j ls))) (ls ! j))
          [0..<length ls]"
    by (rule map_cong) (simp_all add: nth_append)
  then show ?case
    using snoc.IH by (simp add: step_snippetLines fold_tabStopIndex)
qed

lemma fold_firstValuePosition_none:
  "\<not> list_ex isPlaceholderLine ls \<Longrightarrow>
   firstValuePosition (foldl step s ls) = firstValuePosition s"
proof (induction ls arbitrary: s)
  case Nil
  then show ?case by simp
next
  case (Cons l ls)
  then have "firstValuePosition (step s l) = firstValuePosition s"
    by (auto simp: step_firstValuePosition isPlaceholderLine_def split: option.splits)
  with Cons show ?case by simp
qed

lemma fold_firstValuePosition_keep:
  "hasTabStops s \<Longrightarrow> firstValuePosition (foldl step s ls) = firstValuePosition s"
proof (induction ls arbitrary: s)
  case Nil
  then show ?case by simp
next
  case (Cons l ls)
  have "firstValuePosition (step s l) = firstValuePosition s"
    using Cons.prems by (simp add: step_firstValuePosition split: option.splits)
  moreover have "hasTabStops (step s l)"
    using Cons.prems by (simp add: step_hasTabStops)
  ultimately show ?case using Cons.IH by simp
qed

lemma fold_firstValuePosition_first:
  assumes "j < length ls" "\<not> list_ex isPlaceholderLine (take j ls)"
    "envVarMatch (ls ! j) = Some (key, v)" "isPlaceholder v" "\<not> hasTabStops s"
  shows "firstValuePosition (foldl step s ls) =
           Some (currentPosition s + lineOffset ls j + length key + 1)"
proof -
  let ?s1 = "foldl step s (take j ls)"
  have ls: "ls = take j ls @ ls ! j # drop (Suc j) ls"
    using assms(1) by (simp add: id_take_nth_drop)
  have h1: "\<not> hasTabStops ?s1"
    using assms(2,5) by (simp add: fold_hasTabStops)
  have c1: "currentPosition ?s1 = currentPosition s + lineOffset ls j"
    using assms(1) by (simp add: fold_currentPosition lineOffset_def)
  have "firstValuePosition (step ?s1 (ls ! j)) =
          Some (currentPosition s + lineOffset ls j + length key + 1)"
    using assms(3,4) h1 c1 by (simp add: step_firstValuePosition)
  moreover have "hasTabStops (step ?s1 (ls ! j))"
    using assms(3,4) by (simp add: step_hasTabStops isPlaceholderLine_def)
  moreover have "foldl step s ls = foldl step (step ?s1 (ls ! j)) (drop (Suc j) ls)"
    by (subst ls) simp
  ultimately show ?thesis
    by (simp add: fold_firstValuePosition_keep)
qed

lemma emit_other: "\<not> isPlaceholderLine l \<Longrightarrow> emit i l = l"
  by (auto simp: emit_def isPlaceholderLine_def split: option.splits)

lemma isPlaceholderLine_spec:
  "isPlaceholderLine l \<longleftrightarrow> (\<exists>key v. envVarMatch l = Some (key, v) \<and> spec_isPlaceholder v)"
  by (cases "envVarMatch l") (auto simp: isPlaceholderLine_def isPlaceholder_spec)

lemma hasTabStops_spec:
  "resultHasTabStops (processTemplateContent c) \<longleftrightarrow>
     (\<exists>line \<in> set (js_split c). \<exists>key v.
        envVarMatch line = Some (key, v) \<and> spec_isPlaceholder v)"
proof -
  have "resultHasTabStops (processTemplateContent c) \<longleftrightarrow>
          (\<exists>line \<in> set (js_split c). isPlaceholderLine line)"
    by (simp add: processTemplateContent_def Let_def fold_hasTabStops init_state_def list_ex_iff)
  then show ?thesis
    by (simp only: isPlaceholderLine_spec)
qed

lemma step_on_match:
  assumes "envVarMatch line = Some (key, v)"
  shows "snippetLines (step s line) =
           snippetLines s @ [if spec_isPlaceholder v then tabStopLine key (tabStopIndex s) v else line]"
    and "hasTabStops (step s line) = (hasTabStops s \<or> spec_isPlaceholder v)"
    and "tabStopIndex (step s line) =
           (if spec_isPlaceholder v then tabStopIndex s + 1 else tabStopIndex s)"
  using assms
  by (simp_all add: step_snippetLines step_hasTabStops step_tabStopIndex emit_def
      isPlaceholderLine_def isPlaceholder_spec)

section \<open>Facts about the emitted lines\<close>

lemma emittedFrom_Nil: "emittedFrom i [] = []"
  by (simp add: emittedFrom_def)

lemma emittedFrom_Cons:
  "emittedFrom i (l # ls) =
     emit i l # emittedFrom (if isPlaceholderLine l then Suc i else i) ls"
proof -
  have "[0..<length (l # ls)] = 0 # map Suc [0..<length ls]"
    by (simp add: upt_conv_Cons map_Suc_upt del: upt_Suc)
  then show ?thesis
    by (simp add: emittedFrom_def o_def del: upt_Suc)
qed

lemma snippet_emittedFrom:
  "snippetContent (processTemplateContent c) = js_join (emittedFrom 1 (js_split c))"
  by (simp add: processTemplateContent_def Let_def fold_snippetLines init_state_def
      emittedFrom_def)

lemma rank_placeholder:
  "j < length ls \<Longrightarrow> isPlaceholderLine (ls ! j) \<Longrightarrow>
   placeholderRank ls j = 1 + length (filter isPlaceholderLine (take j ls))"
  by (simp add: placeholderRank_def take_Suc_conv_app_nth)

lemma spec_emitted_emit:
  "j < length ls \<Longrightarrow>
   spec_emitted ls j = emit (1 + length (filter isPlaceholderLine (take j ls))) (ls ! j)"
proof (cases "isPlaceholderLine (ls ! j)")
  case True
  assume "j < length ls"
  then show ?thesis
    using True rank_placeholder [of j ls]
    by (auto simp: spec_emitted_def emit_def tabStopLine_def isPlaceholderLine_def
        split: option.splits)
next
  case False
  then show ?thesis
    by (auto simp: spec_emitted_def emit_def isPlaceholderLine_def split: option.splits)
qed

lemma spec_emitted_all:
  "map (spec_emitted ls) [0..<length ls] = emittedFrom 1 ls"
  unfolding emittedFrom_def by (rule map_cong) (simp_all add: spec_emitted_emit)

lemma ranks_contiguous:
  "map (placeholderRank ls) (filter (\<lambda>j. isPlaceholderLine (ls ! j)) [0..<length ls]) =
     [1..<Suc (length (filter isPlaceholderLine ls))]"
proof (induction ls rule: rev_induct)
  case Nil
  then show ?case by simp
next
  case (snoc l ls)
  have f: "filter (\<lambda>j. isPlaceholderLine ((ls @ [l]) ! j)) [0..<length ls] =
           filter (\<lambda>j. isPlaceholderLine (ls ! j)) [0..<length ls]"
    by (rule filter_cong) (simp_all add: nth_append)
  have m: "map (placeholderRank (ls @ [l])) (filter (\<lambda>j. isPlaceholderLine (ls ! j)) [0..<length ls]) =
           map (placeholderRank ls) (filter (\<lambda>j. isPlaceholderLine (ls ! j)) [0..<length ls])"
    by (rule map_cong) (simp_all add: placeholderRank_def)
  have r: "placeholderRank (ls @ [l]) (length ls) = length (filter isPlaceholderLine (ls @ [l]))"
    by (simp add: placeholderRank_def)
  let ?idx = "filter (\<lambda>j. isPlaceholderLine (ls ! j)) [0..<length ls]"
  have split: "filter (\<lambda>j. isPlaceholderLine ((ls @ [l]) ! j)) [0..<length (ls @ [l])] =
               ?idx @ (if isPlaceholderLine l then [length ls] else [])"
    using f by simp
  show ?case
  proof (cases "isPlaceholderLine l")
    case True
    have "map (placeholderRank (ls @ [l]))
            (filter (\<lambda>j. isPlaceholderLine ((ls @ [l]) ! j)) [0..<length (ls @ [l])]) =
          [1..<Suc (length (filter isPlaceholderLine ls))] @
          [Suc (length (filter isPlaceholderLine ls))]"
      using True snoc.IH m r by (simp only: split if_True map_append list.map) simp
    then show ?thesis
      using True by simp
  next
    case False
    have "map (placeholderRank (ls @ [l]))
            (filter (\<lambda>j. isPlaceholderLine ((ls @ [l]) ! j)) [0..<length (ls @ [l])]) =
          [1..<Suc (length (filter isPlaceholderLine ls))]"
      using False snoc.IH m by (simp only: split if_False append_Nil2)
    then show ?thesis
      using False by simp
  qed
qed

section \<open>Facts about the stop markers\<close>

lemma digit_char:
  assumes "k < 10"
  shows "isDigit (0x30 + of_nat k)" and "unat ((0x30 + of_nat k :: jschar) - 0x30) = k"
proof -
  from assms have k: "k = 0 \<or> k = 1 \<or> k = 2 \<or> k = 3 \<or> k = 4 \<or> k = 5 \<or> k = 6 \<or>
    k = 7 \<or> k = 8 \<or> k = 9" by arith
  then show "isDigit (0x30 + of_nat k)"
    by (elim disjE) (simp_all add: isDigit_def)
  from k show "unat ((0x30 + of_nat k :: jschar) - 0x30) = k"
    by (elim disjE) simp_all
qed

lemma unat_digit: "k < 10 \<Longrightarrow> unat (word_of_nat k :: jschar) = k"
  using digit_char(2) [of k] by simp

lemma numToString_digits: "list_all isDigit (numToString n)"
proof (induction n rule: numToString.induct)
  case (1 n)
  show ?case
  proof (cases "n < 10")
    case True
    then show ?thesis by (subst numToString.simps) (simp add: digit_char)
  next
    case False
    then show ?thesis
      using 1 by (subst numToString.simps) (simp add: digit_char)
  qed
qed

lemma numToString_not_Nil: "numToString n \<noteq> []"
  by (subst numToString.simps) simp

lemma digitsToNat_numToString: "digitsToNat (numToString n) = n"
proof (induction n rule: numToString.induct)
  case (1 n)
  show ?case
  proof (cases "n < 10")
    case True
    then show ?thesis
      by (subst numToString.simps) (simp add: digitsToNat_def unat_digit)
  next
    case False
    then have "digitsToNat (numToString (n div 10)) = n div 10"
      using 1 by simp
    then show ?thesis
      using False
      by (subst numToString.simps) (simp add: digitsToNat_def unat_digit)
  qed
qed

lemma digit_not_dollar: "isDigit c \<Longrightarrow> c \<noteq> 0x24"
  by (auto simp: isDigit_def)

lemma colon_not_digit: "\<not> isDigit 0x3A"
  by (simp add: isDigit_def)

lemma digits_then_other:
  assumes "\<not> isDigit x" "x \<noteq> 0x3A"
  shows "(takeWhile isDigit (r @ x # rest) \<noteq> [] \<and>
          js_startsWith (dropWhile isDigit (r @ x # rest)) (js '':'')) =
         (takeWhile isDigit r \<noteq> [] \<and> js_startsWith (dropWhile isDigit r) (js '':''))"
proof (cases "\<forall>d \<in> set r. isDigit d")
  case True
  then have d1: "dropWhile isDigit (r @ x # rest) = x # rest"
    and d2: "dropWhile isDigit r = []"
    using assms(1) by simp_all
  show ?thesis
    unfolding d1 d2 using assms(2) by (simp add: js_def)
next
  case False
  then obtain y where y: "y \<in> set r" "\<not> isDigit y" by blast
  have t: "takeWhile isDigit (r @ x # rest) = takeWhile isDigit r"
    using y by (rule takeWhile_append1)
  have d: "dropWhile isDigit (r @ x # rest) = dropWhile isDigit r @ x # rest"
    using y by (rule dropWhile_append1)
  have "dropWhile isDigit r \<noteq> []"
    using y by (simp add: dropWhile_eq_Nil_conv) blast
  then obtain h tl where "dropWhile isDigit r = h # tl"
    by (cases "dropWhile isDigit r") auto
  then show ?thesis
    using t d by (simp add: js_def)
qed

lemma markerAt_outside:
  assumes "outsideMarker x"
  shows "markerAt (r @ x # rest) = markerAt r"
    and "markerAt r \<Longrightarrow> markerIndex (r @ x # rest) = markerIndex r"
proof -
  have nd: "\<not> isDigit x" and nc: "x \<noteq> 0x3A" and n1: "x \<noteq> 0x24" and n2: "x \<noteq> 0x7B"
    using assms by (simp_all add: outsideMarker_def)
  show "markerAt (r @ x # rest) = markerAt r"
  proof (cases r)
    case Nil
    then show ?thesis using n1 by (simp add: markerAt_def js_def)
  next
    case (Cons a r1)
    show ?thesis
    proof (cases r1)
      case Nil
      then show ?thesis using Cons n2 by (simp add: markerAt_def js_def)
    next
      case (Cons b r2)
      have s: "js_startsWith (a # b # r2 @ x # rest) (js ''${'') = js_startsWith (a # b # r2) (js ''${'')"
        by (simp add: js_def)
      show ?thesis
        using \<open>r = a # r1\<close> Cons s digits_then_other [OF nd nc, of r2 rest]
        by (simp add: markerAt_def)
    qed
  qed
  assume "markerAt r"
  then have "2 \<le> length r"
    by (auto simp: markerAt_def js_startsWith_iff js_def)
  then have "drop 2 (r @ x # rest) = drop 2 r @ x # rest" by simp
  moreover have "takeWhile isDigit (drop 2 r @ x # rest) = takeWhile isDigit (drop 2 r)"
  proof (cases "\<forall>d \<in> set (drop 2 r). isDigit d")
    case True
    have a: "takeWhile isDigit (drop 2 r) = drop 2 r"
      using True by (simp add: takeWhile_eq_all_conv)
    have b: "takeWhile isDigit (drop 2 r @ x # rest) = drop 2 r @ takeWhile isDigit (x # rest)"
      using True by (intro takeWhile_append2) simp
    show ?thesis unfolding a b using nd by simp
  next
    case False
    then obtain y where "y \<in> set (drop 2 r)" "\<not> isDigit y" by blast
    then show ?thesis by (rule takeWhile_append1)
  qed
  ultimately show "markerIndex (r @ x # rest) = markerIndex r"
    by (simp add: markerIndex_def)
qed

lemma stopMarkers_outside:
  "outsideMarker x \<Longrightarrow> stopMarkers (r @ x # rest) = stopMarkers r @ stopMarkers rest"
proof (induction r)
  case Nil
  then have "\<not> markerAt (x # rest)"
    by (simp add: markerAt_def outsideMarker_def js_def)
  then show ?case by simp
next
  case (Cons a r)
  have "markerAt ((a # r) @ x # rest) = markerAt (a # r)"
    "markerAt (a # r) \<Longrightarrow> markerIndex ((a # r) @ x # rest) = markerIndex (a # r)"
    using markerAt_outside [OF Cons.prems, of "a # r" rest] by simp_all
  then show ?case
    using Cons by simp
qed

lemma newline_outside: "outsideMarker 0x0A"
  by (simp add: outsideMarker_def isDigit_def)

lemma brace_outside: "outsideMarker 0x7D"
  by (simp add: outsideMarker_def isDigit_def)

lemma stopMarkers_join: "stopMarkers (js_join ls) = concat (map stopMarkers ls)"
proof (induction ls rule: js_join.induct)
  case (3 l m ls)
  then show ?case
    by (simp add: stopMarkers_outside [OF newline_outside])
qed simp_all

lemma stopMarkers_skip: "0x24 \<notin> set a \<Longrightarrow> stopMarkers (a @ b) = stopMarkers b"
  by (induction a) (auto simp: markerAt_def js_def)

lemma stopMarkers_marker:
  "stopMarkers (js ''${'' @ numToString i @ js '':'' @ rest) = i # stopMarkers rest"
proof -
  have d: "\<And>x. x \<in> set (numToString i) \<Longrightarrow> isDigit x"
    using numToString_digits [of i] by (simp add: list_all_iff)
  have t: "takeWhile isDigit (numToString i @ 0x3A # rest) = numToString i"
    using d by (simp add: colon_not_digit)
  have dr: "dropWhile isDigit (numToString i @ 0x3A # rest) = 0x3A # rest"
    using d by (simp add: colon_not_digit)
  have "0x24 \<notin> set ([0x7B] @ numToString i @ [0x3A])"
    using d digit_not_dollar by auto
  then have s: "stopMarkers (([0x7B] @ numToString i @ [0x3A]) @ rest) = stopMarkers rest"
    by (rule stopMarkers_skip)
  show ?thesis
    using t dr s
    by (simp add: js_def markerAt_def markerIndex_def numToString_not_Nil digitsToNat_numToString)
qed

lemma key_no_dollar: "list_all isKeyChar key \<Longrightarrow> 0x24 \<notin> set key"
  by (auto simp: list_all_iff isKeyChar_def isKeyStart_def)

lemma space_no_dollar: "list_all isSpace ws \<Longrightarrow> 0x24 \<notin> set ws"
  by (auto simp: list_all_iff isSpace_def isWhiteSpace_def isLineTerminator_def)

lemma stopMarkers_emit:
  "stopMarkers (emit i l) = (if isPlaceholderLine l then [i] else []) @ stopMarkers l"
proof (cases "isPlaceholderLine l")
  case True
  then obtain key v where m: "envVarMatch l = Some (key, v)" and p: "isPlaceholder v"
    by (auto simp: isPlaceholderLine_def split: option.splits)
  from m obtain ws1 ws2 where l: "l = key @ ws1 @ [0x3D] @ ws2 @ v"
    and k: "list_all isKeyChar key" and w: "list_all isSpace ws1" "list_all isSpace ws2"
    unfolding envVarMatch_iff by blast
  have "0x24 \<notin> set (key @ ws1 @ [0x3D] @ ws2)"
    using key_no_dollar [OF k] space_no_dollar [OF w(1)] space_no_dollar [OF w(2)] by simp
  then have "stopMarkers ((key @ ws1 @ [0x3D] @ ws2) @ v) = stopMarkers v"
    by (rule stopMarkers_skip)
  then have v: "stopMarkers l = stopMarkers v"
    using l by simp
  have a: "0x24 \<notin> set (key @ js ''='')"
    using key_no_dollar [OF k] by (simp add: js_def)
  have "stopMarkers (emit i l) =
        stopMarkers ((key @ js ''='') @ js ''${'' @ numToString i @ js '':'' @ (v @ js ''}''))"
    using m p by (simp add: emit_def tabStopLine_def)
  also have "\<dots> = stopMarkers (js ''${'' @ numToString i @ js '':'' @ (v @ js ''}''))"
    by (rule stopMarkers_skip [OF a])
  also have "\<dots> = i # stopMarkers (v @ js ''}'')"
    by (rule stopMarkers_marker)
  also have "stopMarkers (v @ js ''}'') = stopMarkers v @ stopMarkers []"
    using stopMarkers_outside [OF brace_outside, of v "[]"] by (simp add: js_def)
  finally show ?thesis
    using True v by simp
next
  case False
  then show ?thesis
    by (simp add: emit_other)
qed

lemma upt_shift: "i # [Suc i..<Suc i + n] = [i..<i + Suc n]"
  by (simp add: upt_conv_Cons del: upt_Suc)

lemma stopMarkers_emittedFrom:
  "\<forall>l \<in> set ls. stopMarkers l = [] \<Longrightarrow>
   concat (map stopMarkers (emittedFrom i ls)) = [i..<i + length (filter isPlaceholderLine ls)]"
proof (induction ls arbitrary: i)
  case Nil
  then show ?case by (simp add: emittedFrom_Nil)
next
  case (Cons l ls)
  have l: "stopMarkers l = []" using Cons.prems by simp
  show ?case
  proof (cases "isPlaceholderLine l")
    case True
    then show ?thesis
      using Cons l upt_shift [of i "length (filter isPlaceholderLine ls)"]
      by (simp add: emittedFrom_Cons stopMarkers_emit)
  next
    case False
    then show ?thesis
      using Cons l by (simp add: emittedFrom_Cons stopMarkers_emit)
  qed
qed

lemma count_emittedFrom:
  "length (concat (map stopMarkers (emittedFrom i ls))) =
     length (filter isPlaceholderLine ls) + length (concat (map stopMarkers ls))"
  by (induction ls arbitrary: i) (simp_all add: emittedFrom_Nil emittedFrom_Cons stopMarkers_emit)

lemma snippet_marker_count:
  "length (stopMarkers (snippetContent (processTemplateContent c))) =
     length (filter isPlaceholderLine (js_split c)) + length (stopMarkers c)"
proof -
  have "stopMarkers c = concat (map stopMarkers (js_split c))"
    using stopMarkers_join [of "js_split c"] by (simp add: js_join_split)
  then show ?thesis
    by (simp add: snippet_emittedFrom stopMarkers_join count_emittedFrom)
qed

lemma snippet_markers:
  assumes "stopMarkers c = []"
  shows "stopMarkers (snippetContent (processTemplateContent c)) =
           [1..<Suc (length (filter isPlaceholderLine (js_split c)))]"
proof -
  have "concat (map stopMarkers (js_split c)) = []"
    using assms stopMarkers_join [of "js_split c"] by (simp add: js_join_split)
  then have "\<forall>l \<in> set (js_split c). stopMarkers l = []"
    by simp
  then show ?thesis
    by (simp add: snippet_emittedFrom stopMarkers_join stopMarkers_emittedFrom)
qed

section \<open>Facts about the first-value position\<close>

lemma spec_offsetFrom_none:
  "\<not> list_ex isPlaceholderLine ls \<Longrightarrow> spec_offsetFrom off ls = None"
  by (induction ls arbitrary: off) simp_all

lemma spec_offsetFrom_first:
  "j < length ls \<Longrightarrow> \<not> list_ex isPlaceholderLine (take j ls) \<Longrightarrow> isPlaceholderLine (ls ! j) \<Longrightarrow>
   spec_offsetFrom off ls =
     Some (off + lineOffset ls j + length (takeWhile (\<lambda>x. x \<noteq> 0x3D) (ls ! j)) + 1)"
proof (induction ls arbitrary: j off)
  case Nil
  then show ?case by simp
next
  case (Cons l ls)
  show ?case
  proof (cases j)
    case 0
    then show ?thesis using Cons.prems by (simp add: lineOffset_def)
  next
    case (Suc k)
    then have "spec_offsetFrom (off + length l + 1) ls =
        Some ((off + length l + 1) + lineOffset ls k +
              length (takeWhile (\<lambda>x. x \<noteq> 0x3D) (ls ! k)) + 1)"
      using Cons.prems by (intro Cons.IH) simp_all
    then show ?thesis
      using Suc Cons.prems by (simp add: lineOffset_def)
  qed
qed

lemma equals_after_key:
  assumes "envVarMatch l = Some (key, v)"
  shows "length (takeWhile (\<lambda>x. x \<noteq> 0x3D) l) = length key \<longleftrightarrow> js_startsWith l (key @ js ''='')"
proof -
  from assms obtain ws1 ws2 where l: "l = key @ ws1 @ [0x3D] @ ws2 @ v"
    and k: "list_all isKeyChar key" and w: "list_all isSpace ws1"
    unfolding envVarMatch_iff by blast
  have nk: "\<And>x. x \<in> set key \<Longrightarrow> x \<noteq> 0x3D"
    using k eq_not_key by (auto simp: list_all_iff)
  have nw: "\<And>x. x \<in> set ws1 \<Longrightarrow> x \<noteq> 0x3D"
    using w eq_not_space by (auto simp: list_all_iff)
  have "takeWhile (\<lambda>x. x \<noteq> 0x3D) l = key @ ws1"
    unfolding l using nk nw by simp
  then have len: "length (takeWhile (\<lambda>x. x \<noteq> 0x3D) l) = length key + length ws1"
    by simp
  have "js_startsWith l (key @ js ''='') \<longleftrightarrow> ws1 = []"
  proof (cases ws1)
    case Nil
    then show ?thesis using l by (simp add: js_startsWith_iff js_def)
  next
    case (Cons a as)
    then have "a \<noteq> 0x3D" using nw by simp
    then show ?thesis using l Cons by (simp add: js_startsWith_iff js_def)
  qed
  then show ?thesis using len by simp
qed

lemma js_join_at:
  "j < length xs \<Longrightarrow>
   js_join xs = concat (map (\<lambda>l. l @ [0x0A]) (take j xs)) @ js_join (drop j xs)"
proof (induction xs arbitrary: j)
  case Nil
  then show ?case by simp
next
  case (Cons x xs)
  show ?case
  proof (cases j)
    case 0
    then show ?thesis by simp
  next
    case (Suc k)
    then have "k < length xs" using Cons.prems by simp
    then have "js_join xs = concat (map (\<lambda>l. l @ [0x0A]) (take k xs)) @ js_join (drop k xs)"
      by (rule Cons.IH)
    moreover have "xs \<noteq> []" using \<open>k < length xs\<close> by auto
    ultimately show ?thesis
      using Suc by (simp add: js_join_Cons)
  qed
qed

lemma length_lines_before:
  "length (concat (map (\<lambda>l. l @ [0x0A]) (take j xs))) = lineOffset xs j"
  by (simp add: lineOffset_def length_concat o_def)

lemma length_emittedFrom: "length (emittedFrom i ls) = length ls"
  by (simp add: emittedFrom_def)

lemma emittedFrom_before_first:
  assumes "j < length ls" "\<not> list_ex isPlaceholderLine (take j ls)"
  shows "take j (emittedFrom i ls) = take j ls"
proof (rule nth_equalityI)
  show "length (take j (emittedFrom i ls)) = length (take j ls)"
    by (simp add: length_emittedFrom)
next
  fix k
  assume "k < length (take j (emittedFrom i ls))"
  then have k: "k < j" "k < length ls"
    using assms(1) by (simp_all add: length_emittedFrom)
  then have "ls ! k \<in> set (take j ls)"
    using assms(1) by (metis in_set_conv_nth length_take min.absorb2 less_imp_le nth_take)
  then have "\<not> isPlaceholderLine (ls ! k)"
    using assms(2) by (auto simp: list_ex_iff)
  then show "take j (emittedFrom i ls) ! k = take j ls ! k"
    using k by (simp add: emittedFrom_def emit_other)
qed

lemma emittedFrom_nth:
  "j < length ls \<Longrightarrow>
   emittedFrom i ls ! j = emit (i + length (filter isPlaceholderLine (take j ls))) (ls ! j)"
  by (simp add: emittedFrom_def)

lemma snippet_prefix:
  assumes j: "j < length (js_split c)"
    and before: "\<not> list_ex isPlaceholderLine (take j (js_split c))"
    and m: "envVarMatch (js_split c ! j) = Some (key, v)" and p: "isPlaceholder v"
  shows "take (lineOffset (js_split c) j + length key + 1) (snippetContent (processTemplateContent c)) =
           take (lineOffset (js_split c) j) c @ key @ js ''=''"
    and "drop (lineOffset (js_split c) j) c = js_join (drop j (js_split c))"
proof -
  let ?ls = "js_split c"
  let ?S = "emittedFrom 1 ?ls"
  let ?pre = "concat (map (\<lambda>l. l @ [0x0A]) (take j ?ls))"
  have lp: "length ?pre = lineOffset ?ls j"
    by (rule length_lines_before)
  have c: "c = ?pre @ js_join (drop j ?ls)"
    using js_join_at [OF j] by (simp add: js_join_split)
  have tc: "take (lineOffset ?ls j) c = ?pre"
    by (subst c) (simp add: lp)
  show "drop (lineOffset ?ls j) c = js_join (drop j ?ls)"
    by (subst c) (simp add: lp)
  have jS: "j < length ?S" using j by (simp add: length_emittedFrom)
  have "js_join ?S = concat (map (\<lambda>l. l @ [0x0A]) (take j ?S)) @ js_join (drop j ?S)"
    by (rule js_join_at [OF jS])
  also have "take j ?S = take j ?ls"
    by (rule emittedFrom_before_first [OF j before])
  finally have s: "js_join ?S = ?pre @ js_join (drop j ?S)" .
  obtain i where e: "?S ! j = tabStopLine key i v"
    using m p by (simp add: emittedFrom_nth [OF j] emit_def)
  have d: "drop j ?S = ?S ! j # drop (Suc j) ?S"
    using jS by (simp add: Cons_nth_drop_Suc)
  define more where "more =
    js ''${'' @ numToString i @ js '':'' @ v @ js ''}'' @
    (if drop (Suc j) ?S = [] then [] else 0x0A # js_join (drop (Suc j) ?S))"
  have "js_join (drop j ?S) = (key @ js ''='') @ more"
    unfolding d e more_def by (simp add: js_join_Cons tabStopLine_def)
  then have "js_join ?S = (?pre @ key @ js ''='') @ more"
    using s by simp
  moreover have "length (?pre @ key @ js ''='') = lineOffset ?ls j + length key + 1"
    using lp by (simp add: js_def)
  ultimately have "take (lineOffset ?ls j + length key + 1) (js_join ?S) = ?pre @ key @ js ''=''"
    by (metis append_eq_conv_conj)
  then show "take (lineOffset ?ls j + length key + 1) (snippetContent (processTemplateContent c)) =
           take (lineOffset ?ls j) c @ key @ js ''=''"
    by (simp add: snippet_emittedFrom tc)
qed

text \<open>
  What the loop computes: null without a placeholder line; otherwise, with \<open>j\<close> the
  first placeholder line and \<open>key\<close> its key, the offset at which line \<open>j\<close> starts in
  the original text plus the length of the key plus one. That is the position right
  after the key and \<open>=\<close> in the annotated text; it is the position right after the
  \<open>=\<close> sign of the original text exactly when \<open>=\<close> follows the key at once.
\<close>

lemma first_value_position_computed:
  "(\<not> list_ex isPlaceholderLine (js_split c) \<longrightarrow>
      resultFirstValuePosition (processTemplateContent c) = None \<and>
      spec_firstValueOffset c = None) \<and>
   (j < length (js_split c) \<and> \<not> list_ex isPlaceholderLine (take j (js_split c)) \<and>
    envVarMatch (js_split c ! j) = Some (key, v) \<and> isPlaceholder v \<longrightarrow>
      resultFirstValuePosition (processTemplateContent c) =
        Some (lineOffset (js_split c) j + length key + 1) \<and>
      drop (lineOffset (js_split c) j) c = js_join (drop j (js_split c)) \<and>
      take (lineOffset (js_split c) j + length key + 1)
          (snippetContent (processTemplateContent c)) =
        take (lineOffset (js_split c) j) c @ key @ js ''='' \<and>
      (resultFirstValuePosition (processTemplateContent c) = spec_firstValueOffset c \<longleftrightarrow>
         js_startsWith (js_split c ! j) (key @ js ''='')))"
proof -
  let ?ls = "js_split c"
  have a: "\<not> list_ex isPlaceholderLine ?ls \<longrightarrow>
      resultFirstValuePosition (processTemplateContent c) = None \<and>
      spec_firstValueOffset c = None"
    by (simp add: processTemplateContent_def Let_def fold_firstValuePosition_none init_state_def
        spec_firstValueOffset_def spec_offsetFrom_none)
  have b: "resultFirstValuePosition (processTemplateContent c) =
        Some (lineOffset ?ls j + length key + 1) \<and>
      drop (lineOffset ?ls j) c = js_join (drop j ?ls) \<and>
      take (lineOffset ?ls j + length key + 1) (snippetContent (processTemplateContent c)) =
        take (lineOffset ?ls j) c @ key @ js ''='' \<and>
      (resultFirstValuePosition (processTemplateContent c) = spec_firstValueOffset c \<longleftrightarrow>
         js_startsWith (?ls ! j) (key @ js ''=''))"
    if h: "j < length ?ls" "\<not> list_ex isPlaceholderLine (take j ?ls)"
      "envVarMatch (?ls ! j) = Some (key, v)" "isPlaceholder v"
  proof -
    have pos: "resultFirstValuePosition (processTemplateContent c) =
        Some (lineOffset ?ls j + length key + 1)"
      using fold_firstValuePosition_first [OF h, of init_state]
      by (simp add: processTemplateContent_def Let_def init_state_def)
    have pl: "isPlaceholderLine (?ls ! j)"
      using h(3,4) by (simp add: isPlaceholderLine_def)
    have sp: "spec_firstValueOffset c =
        Some (lineOffset ?ls j + length (takeWhile (\<lambda>x. x \<noteq> 0x3D) (?ls ! j)) + 1)"
      using spec_offsetFrom_first [OF h(1,2) pl, of 0] by (simp add: spec_firstValueOffset_def)
    have eq: "resultFirstValuePosition (processTemplateContent c) = spec_firstValueOffset c \<longleftrightarrow>
         js_startsWith (?ls ! j) (key @ js ''='')"
      using pos sp equals_after_key [OF h(3)] by auto
    show ?thesis
      using pos eq snippet_prefix [OF h] by blast
  qed
  show ?thesis
    using a b by blast
qed

section \<open>Facts about the template locator\<close>

lemma filesOf_nonempty:
  "p \<in> set (filesOf n) \<Longrightarrow> p \<noteq> []"
  "p \<in> set (filesOfEntries es) \<Longrightarrow> p \<noteq> []"
  by (induction n and es arbitrary: p and p rule: filesOf_filesOfEntries.induct) auto

lemma wanted_single: "wanted [file] = List.member templatePatterns file"
  by (simp add: wanted_def insideExcluded_def)

lemma wanted_Cons: "p \<noteq> [] \<Longrightarrow> wanted (d # p) = (\<not> excludedName d \<and> wanted p)"
  by (cases p) (auto simp: wanted_def insideExcluded_def)

lemma filter_wanted_below:
  assumes "\<And>p. p \<in> set ps \<Longrightarrow> p \<noteq> []"
  shows "filter wanted (map ((#) d) ps) =
           (if excludedName d then [] else map ((#) d) (filter wanted ps))"
  using assms by (induction ps) (auto simp: wanted_Cons)

lemma search_complete:
  "statSucceeds n \<Longrightarrow>
     searchDirectory dirPath n templates =
       templates @ map ((@) dirPath) (filter wanted (filesOf n))"
  "statSucceedsEntries es \<Longrightarrow>
     searchEntries dirPath es templates =
       (True, templates @ map ((@) dirPath) (filter wanted (filesOfEntries es)))"
proof (induction dirPath n templates and dirPath es templates
    rule: searchDirectory_searchEntries.induct)
  case (8 dirPath name l rest templates)
  show ?case
  proof (cases "excludedName name")
    case True
    then have inv: "\<not> (\<not> js_startsWith name (js ''.'') \<and> name \<noteq> js ''node_modules'')"
      by (simp add: excludedName_def)
    have ok: "statSucceedsEntries rest"
      using 8(4) by simp
    show ?thesis
      using 8(3)[OF inv ok] inv True
      by (auto simp: filter_wanted_below filesOf_nonempty)
  next
    case False
    then have vis: "\<not> js_startsWith name (js ''.'') \<and> name \<noteq> js ''node_modules''"
      by (simp add: excludedName_def)
    have ok: "statSucceeds (Directory l)" "statSucceedsEntries rest"
      using 8(4) False by simp_all
    have "map ((@) dirPath) (map ((#) name) (filter wanted (filesOf (Directory l)))) =
          map ((@) (dirPath @ [name])) (filter wanted (filesOf (Directory l)))"
      by simp
    then show ?thesis
      using 8(1)[OF vis ok(1)] 8(2)[OF vis ok(2)] vis False
      by (simp add: filter_wanted_below filesOf_nonempty)
  qed
qed (simp_all add: wanted_single)

lemma filesOfEntries_hd: "p \<in> set (filesOfEntries es) \<Longrightarrow> hd p \<in> fst ` set es"
  by (induction es rule: filesOf_filesOfEntries.induct(2)[where P = "\<lambda>n. True"]) auto

lemma filesOf_distinct:
  "distinctNames n \<Longrightarrow> distinct (filesOf n)"
  "distinctNamesEntries es \<Longrightarrow> distinct (map fst es) \<Longrightarrow> distinct (filesOfEntries es)"
proof (induction n and es rule: filesOf_filesOfEntries.induct)
  case (7 name rest)
  have "[name] \<notin> set (filesOfEntries rest)"
    using filesOfEntries_hd [of "[name]" rest] 7(3) by auto
  then show ?case using 7 by simp
next
  case (8 name l rest)
  have "distinct (map ((#) name) (filesOf (Directory l)))"
    using 8 by (simp add: distinct_map inj_on_def)
  moreover have "name # q \<notin> set (filesOfEntries rest)" for q
    using filesOfEntries_hd [of "name # q" rest] 8(4) by auto
  then have "set (map ((#) name) (filesOf (Directory l))) \<inter> set (filesOfEntries rest) = {}"
    by auto
  ultimately show ?case using 8 by simp
qed simp_all

lemma search_sound:
  "set (searchDirectory dirPath n templates) \<subseteq>
     set templates \<union> (@) dirPath ` set (filter wanted (filesOf n))"
  "set (snd (searchEntries dirPath es templates)) \<subseteq>
     set templates \<union> (@) dirPath ` set (filter wanted (filesOfEntries es))"
proof (induction dirPath n templates and dirPath es templates
    rule: searchDirectory_searchEntries.induct)
  case (8 dirPath name l rest templates)
  show ?case
  proof (cases "excludedName name")
    case True
    then have inv: "\<not> (\<not> js_startsWith name (js ''.'') \<and> name \<noteq> js ''node_modules'')"
      by (simp add: excludedName_def)
    show ?thesis
      using 8(3)[OF inv] inv by auto
  next
    case False
    then have vis: "\<not> js_startsWith name (js ''.'') \<and> name \<noteq> js ''node_modules''"
      by (simp add: excludedName_def)
    define A where "A = (@) (dirPath @ [name]) ` set (filter wanted (filesOf (Directory l)))"
    define B where "B = (@) dirPath ` set (filter wanted (filesOfEntries rest))"
    have below: "(@) dirPath ` set (filter wanted (map ((#) name) (filesOf (Directory l)))) = A"
      using False unfolding A_def by (simp add: filter_wanted_below filesOf_nonempty image_image)
    have whole: "(@) dirPath ` set (filter wanted (filesOfEntries ((name, Directory l) # rest))) =
                 A \<union> B"
      unfolding below [symmetric] B_def by (simp add: image_Un)
    have run: "snd (searchEntries dirPath ((name, Directory l) # rest) templates) =
               snd (searchEntries dirPath rest
                      (searchDirectory (dirPath @ [name]) (Directory l) templates))"
      using vis by simp
    have s1: "set (snd (searchEntries dirPath rest
                      (searchDirectory (dirPath @ [name]) (Directory l) templates))) \<subseteq>
              set (searchDirectory (dirPath @ [name]) (Directory l) templates) \<union> B"
      using 8(2)[OF vis] unfolding B_def .
    have s2: "set (searchDirectory (dirPath @ [name]) (Directory l) templates) \<subseteq>
              set templates \<union> A"
      using 8(1)[OF vis] unfolding A_def .
    show ?thesis
      unfolding run whole using s1 s2 by blast
  qed
next
  case (9 dirPath name rest templates)
  then show ?case by (auto simp: wanted_single)
qed auto

lemma locator_returns_only_wanted:
  "set (findTemplateFiles rootPath root) \<subseteq> (@) rootPath ` set (filter wanted (filesOf root))"
  using search_sound(1) [of rootPath root "[]"] by (simp add: findTemplateFiles_def)

text \<open>
  On a tree where \<open>statSync\<close> succeeds on every entry the traversal meets, the locator
  returns every wanted file, in listing order, and no path twice when no listing names
  an entry twice.
\<close>

lemma locator_on_trees_without_stat_failure:
  "(statSucceeds root \<longrightarrow>
      findTemplateFiles rootPath root = map ((@) rootPath) (filter wanted (filesOf root)) \<and>
      set (findTemplateFiles rootPath root) =
        {rootPath @ q | q. q \<in> set (filesOf root) \<and> List.member templatePatterns (last q) \<and>
           \<not> list_ex excludedName (butlast q)}) \<and>
   (statSucceeds root \<and> distinctNames root \<longrightarrow> distinct (findTemplateFiles rootPath root))"
proof -
  have a: "findTemplateFiles rootPath root = map ((@) rootPath) (filter wanted (filesOf root))"
    if "statSucceeds root"
    using search_complete(1) [OF that, of rootPath "[]"] by (simp add: findTemplateFiles_def)
  have b: "set (findTemplateFiles rootPath root) =
        {rootPath @ q | q. q \<in> set (filesOf root) \<and> List.member templatePatterns (last q) \<and>
           \<not> list_ex excludedName (butlast q)}"
    if "statSucceeds root"
    using a [OF that] by (auto simp: wanted_def insideExcluded_def)
  have c: "distinct (findTemplateFiles rootPath root)"
    if "statSucceeds root" "distinctNames root"
    using a [OF that(1)] filesOf_distinct(1) [OF that(2)]
    by (simp add: distinct_map inj_on_def)
  show ?thesis
    using a b c by blast
qed

section \<open>Facts about the ignore-file updater\<close>

lemma js_split_append_nl: "js_split (a @ 0x0A # b) = js_split a @ js_split b"
proof (induction a)
  case Nil
  then show ?case by simp
next
  case (Cons x a)
  then show ?case
    by (cases "js_split a") (auto simp: js_split_not_Nil)
qed

lemma js_endsWith_nl: "js_endsWith c [0x0A] \<longleftrightarrow> c \<noteq> [] \<and> last c = 0x0A"
  by (cases c rule: rev_cases) (simp_all add: js_endsWith_def)

lemma js_trim_surrounded:
  assumes "list_all isSpace ws1" "list_all isSpace ws2"
    "s \<noteq> []" "\<not> isSpace (hd s)" "\<not> isSpace (last s)"
  shows "js_trim (ws1 @ s @ ws2) = s"
proof -
  have w1: "\<And>x. x \<in> set ws1 \<Longrightarrow> isSpace x" and w2: "\<And>x. x \<in> set (rev ws2) \<Longrightarrow> isSpace x"
    using assms(1,2) by (simp_all add: list_all_iff)
  have h: "dropWhile isSpace (s @ ws2) = s @ ws2"
    using assms(3,4) by (cases s) simp_all
  have "dropWhile isSpace (ws1 @ s @ ws2) = s @ ws2"
    using w1 h by simp
  moreover have "dropWhile isSpace (rev ws2 @ rev s) = dropWhile isSpace (rev s)"
    by (rule dropWhile_append2) (use w2 in simp)
  moreover have "dropWhile isSpace (rev s) = rev s"
    using assms(3,5) by (cases s rule: rev_cases) simp_all
  ultimately show ?thesis
    by (simp add: js_trim_def)
qed

lemma split_env: "js_split (js ''.env'') = [js ''.env'']"
  by (simp add: js_def)

lemma new_lines:
  "js_split (newGitignoreContent c) =
     (if c \<noteq> [] \<and> last c = 0x0A then butlast (js_split c) else js_split c) @ [js ''.env'', []]"
proof (cases "c \<noteq> [] \<and> last c = 0x0A")
  case True
  then obtain c' where c: "c = c' @ [0x0A]" by (metis append_butlast_last_id)
  have "js_split c = js_split c' @ [[]]"
    using js_split_append_nl [of c' "[]"] c by simp
  moreover have "newGitignoreContent c = c' @ 0x0A # (js ''.env'' @ [0x0A])"
    using c by (simp add: newGitignoreContent_def js_endsWith_nl)
  ultimately have "js_split (newGitignoreContent c) = butlast (js_split c) @ [js ''.env'', []]"
    by (simp add: js_split_append_nl split_env)
  then show ?thesis
    using True by auto
next
  case False
  then have "newGitignoreContent c = c @ 0x0A # (js ''.env'' @ [0x0A])"
    by (simp add: newGitignoreContent_def js_endsWith_nl)
  then have "js_split (newGitignoreContent c) = js_split c @ [js ''.env'', []]"
    by (simp add: js_split_append_nl split_env)
  then show ?thesis
    using False by auto
qed

lemma checkGitignore_prior:
  "priorContent fs workspaceRoot c \<Longrightarrow>
   checkGitignore u workspaceRoot fs =
     (if hasEnv c then \<lparr>fsAfter = fs, effects = [], thrown = None\<rparr>
      else
        (case addToGitignore u of
           Some Yes \<Rightarrow>
             (case writeFileSync fs (workspaceRoot @ [js ''.gitignore'']) (newGitignoreContent c) of
                Inl e \<Rightarrow> \<lparr>fsAfter = fs, effects = [], thrown = Some e\<rparr>
              | Inr fs' \<Rightarrow>
                  \<lparr>fsAfter = fs',
                   effects =
                     [WriteFile (workspaceRoot @ [js ''.gitignore'']) (newGitignoreContent c),
                      ShowInformationMessage (js ''.env added to .gitignore'')],
                   thrown = None\<rparr>)
         | Some No \<Rightarrow> \<lparr>fsAfter = fs, effects = [], thrown = None\<rparr>
         | None \<Rightarrow> \<lparr>fsAfter = fs, effects = [], thrown = None\<rparr>))"
  by (auto simp: priorContent_def checkGitignore_def existsSync_def readFileSync_def Let_def)

lemma checkGitignore_writes: "length (filter isWrite (effects (checkGitignore u workspaceRoot fs))) \<le> 1"
  by (simp add: checkGitignore_def Let_def split: sum.splits option.splits gitignore_choice.splits)

lemma hasEnv_iff:
  "hasEnv c \<longleftrightarrow>
     (\<exists>line \<in> set (js_split c).
        js_trim line = js ''.env'' \<or> js_trim line = js ''/.env'' \<or> js_trim line = js ''*.env'')"
  by (simp add: hasEnv_def list_ex_iff Let_def)

lemma rooted_line:
  "list_all isSpace ws1 \<Longrightarrow> list_all isSpace ws2 \<Longrightarrow>
   ws1 @ js ''/.env'' @ ws2 \<in> set (js_split c) \<Longrightarrow> hasEnv c"
proof -
  assume a: "list_all isSpace ws1" "list_all isSpace ws2"
    and m: "ws1 @ js ''/.env'' @ ws2 \<in> set (js_split c)"
  have "js_trim (ws1 @ js ''/.env'' @ ws2) = js ''/.env''"
    by (rule js_trim_surrounded [OF a]) (simp_all add: char_defs)
  then show "hasEnv c"
    using m unfolding hasEnv_iff by blast
qed

section \<open>Facts about the orchestrator\<close>

lemma checkGitignore_other_files:
  "p \<noteq> workspaceRoot @ [js ''.gitignore''] \<Longrightarrow>
   files (fsAfter (checkGitignore u workspaceRoot fs)) p = files fs p"
  by (auto simp: checkGitignore_def Let_def writeFileSync_def
      split: sum.splits option.splits gitignore_choice.splits)

lemma env_not_gitignore: "d @ [js ''.env''] \<noteq> workspaceRoot @ [js ''.gitignore'']"
  by (simp add: js_def)

lemma copyTemplate_writes_content:
  assumes "readFileSync fs selectedTemplate = Inr c" "writeError fs (d @ [js ''.env'']) = None"
  shows "take 1 (effects (copyTemplate u workspaceRoot selectedTemplate (d @ [js ''.env'']) fs)) =
           [WriteFile (d @ [js ''.env'']) c]"
    and "files (fsAfter (copyTemplate u workspaceRoot selectedTemplate (d @ [js ''.env'']) fs))
           (d @ [js ''.env'']) = Present c"
proof -
  let ?fs1 = "fs\<lparr>files := (files fs)(d @ [js ''.env''] := Present c)\<rparr>"
  have w: "writeFileSync fs (d @ [js ''.env'']) c = Inr ?fs1"
    using assms(2) by (simp add: writeFileSync_def)
  have c: "content (processTemplateContent c) = c"
    by (simp add: processTemplateContent_def Let_def)
  show "take 1 (effects (copyTemplate u workspaceRoot selectedTemplate (d @ [js ''.env'']) fs)) =
           [WriteFile (d @ [js ''.env'']) c]"
    using assms(1) w c by (simp add: copyTemplate_def Let_def split: option.splits)
  have "files (fsAfter (checkGitignore u workspaceRoot ?fs1)) (d @ [js ''.env'']) =
          files ?fs1 (d @ [js ''.env''])"
    by (rule checkGitignore_other_files [OF env_not_gitignore])
  then show "files (fsAfter (copyTemplate u workspaceRoot selectedTemplate (d @ [js ''.env'']) fs))
           (d @ [js ''.env'']) = Present c"
    using assms(1) w c by (simp add: copyTemplate_def Let_def split: option.splits)
qed

section \<open>Properties of the template processor\<close>

text \<open>
  C1. The plain output of the template processor, the \<open>content\<close> field, is the input
  text itself, for every input, the empty text included. It is what the command writes:
  when the template reads as \<open>c\<close> and the target can be written, the first effect of
  the copy is the write of \<open>c\<close> to the target, and the target holds \<open>c\<close> afterwards.
\<close>

theorem plain_output_is_input:
  "content (processTemplateContent c) = c \<and>
   content (processTemplateContent []) = [] \<and>
   (readFileSync fs selectedTemplate = Inr c \<and> writeError fs (d @ [js ''.env'']) = None \<longrightarrow>
      take 1 (effects (copyTemplate u workspaceRoot selectedTemplate (d @ [js ''.env'']) fs)) =
        [WriteFile (d @ [js ''.env'']) c] \<and>
      files (fsAfter (copyTemplate u workspaceRoot selectedTemplate (d @ [js ''.env'']) fs))
        (d @ [js ''.env'']) = Present c)"
  using copyTemplate_writes_content [of fs selectedTemplate c d u workspaceRoot]
  by (simp add: processTemplateContent_def Let_def)

theorem plain_output_is_input_witness:
  "readFileSync demo_single [js ''w'', js ''.env.example''] = Inr (js ''A=xxx'') \<and>
   content (processTemplateContent (js ''A=xxx'')) = js ''A=xxx'' \<and>
   files (fsAfter (copyTemplate demo_user [js ''w''] [js ''w'', js ''.env.example'']
                     ([js ''w''] @ [js ''.env'']) demo_single))
     ([js ''w''] @ [js ''.env'']) = Present (js ''A=xxx'')"
proof -
  have r: "readFileSync demo_single [js ''w'', js ''.env.example''] = Inr (js ''A=xxx'')"
    by (simp add: readFileSync_def demo_single_def)
  have w: "writeError demo_single ([js ''w''] @ [js ''.env'']) = None"
    by (simp add: demo_single_def)
  note t = plain_output_is_input [of "js ''A=xxx''" demo_single "[js ''w'', js ''.env.example'']"
      "[js ''w'']" demo_user "[js ''w'']"]
  show ?thesis
    using r w t by blast
qed

text \<open>
  C2. On a line that matches the assignment pattern, with the value the pattern
  captures, the value is classified as a placeholder exactly when it is empty, is \<open>""\<close>
  or \<open>''\<close>, or has one of the ten tokens as a substring, and the processor acts on
  that: one iteration of its loop pushes the tab-stop line, sets the flag and advances
  the stop index exactly in that case, and pushes the line unchanged otherwise; the
  processor reports tab stops exactly when some line matches with such a value.
  \<open>API_KEY=your-key-here\<close> is a placeholder and becomes \<open>API_KEY=${1:your-key-here}\<close>,
  \<open>PORT=8080\<close> is not and stays, \<open>NAME=""\<close> is and becomes \<open>NAME=${1:""}\<close>.
\<close>

theorem placeholder_classification:
  "(envVarMatch line = Some (key, v) \<longrightarrow>
      (isPlaceholder v \<longleftrightarrow> spec_isPlaceholder v) \<and>
      (isPlaceholderLine line \<longleftrightarrow> spec_isPlaceholder v) \<and>
      snippetLines (step s line) =
        snippetLines s @
        [if spec_isPlaceholder v then tabStopLine key (tabStopIndex s) v else line] \<and>
      hasTabStops (step s line) = (hasTabStops s \<or> spec_isPlaceholder v) \<and>
      tabStopIndex (step s line) =
        (if spec_isPlaceholder v then tabStopIndex s + 1 else tabStopIndex s)) \<and>
   (resultHasTabStops (processTemplateContent c) \<longleftrightarrow>
      (\<exists>l \<in> set (js_split c). \<exists>k w. envVarMatch l = Some (k, w) \<and> spec_isPlaceholder w)) \<and>
   envVarMatch (js ''API_KEY=your-key-here'') = Some (js ''API_KEY'', js ''your-key-here'') \<and>
   isPlaceholder (js ''your-key-here'') \<and>
   resultHasTabStops (processTemplateContent (js ''API_KEY=your-key-here'')) \<and>
   snippetContent (processTemplateContent (js ''API_KEY=your-key-here'')) =
     js ''API_KEY=${1:your-key-here}'' \<and>
   envVarMatch (js ''PORT=8080'') = Some (js ''PORT'', js ''8080'') \<and>
   \<not> isPlaceholder (js ''8080'') \<and>
   \<not> resultHasTabStops (processTemplateContent (js ''PORT=8080'')) \<and>
   snippetContent (processTemplateContent (js ''PORT=8080'')) = js ''PORT=8080'' \<and>
   envVarMatch (js (''NAME='' @ [CHR 0x22, CHR 0x22])) =
     Some (js ''NAME'', js [CHR 0x22, CHR 0x22]) \<and>
   isPlaceholder (js [CHR 0x22, CHR 0x22]) \<and>
   resultHasTabStops (processTemplateContent (js (''NAME='' @ [CHR 0x22, CHR 0x22]))) \<and>
   snippetContent (processTemplateContent (js (''NAME='' @ [CHR 0x22, CHR 0x22]))) =
     js (''NAME=${1:'' @ [CHR 0x22, CHR 0x22] @ ''}'')"
proof -
  have general: "envVarMatch line = Some (key, v) \<longrightarrow>
      (isPlaceholder v \<longleftrightarrow> spec_isPlaceholder v) \<and>
      (isPlaceholderLine line \<longleftrightarrow> spec_isPlaceholder v) \<and>
      snippetLines (step s line) =
        snippetLines s @
        [if spec_isPlaceholder v then tabStopLine key (tabStopIndex s) v else line] \<and>
      hasTabStops (step s line) = (hasTabStops s \<or> spec_isPlaceholder v) \<and>
      tabStopIndex (step s line) =
        (if spec_isPlaceholder v then tabStopIndex s + 1 else tabStopIndex s)"
    using step_on_match [of line key v s]
    by (simp add: isPlaceholderLine_def isPlaceholder_spec)
  have e1: "envVarMatch (js ''API_KEY=your-key-here'') =
              Some (js ''API_KEY'', js ''your-key-here'')"
    by (simp add: envVarMatch_def char_defs)
  have p1: "isPlaceholder (js ''your-key-here'')"
    by (simp add: isPlaceholder_def js_def)
  have r1: "resultHasTabStops (processTemplateContent (js ''API_KEY=your-key-here''))"
    "snippetContent (processTemplateContent (js ''API_KEY=your-key-here'')) =
       js ''API_KEY=${1:your-key-here}''"
    by (simp_all add: processor_defs char_defs numToString.simps)
  have e2: "envVarMatch (js ''PORT=8080'') = Some (js ''PORT'', js ''8080'')"
    by (simp add: envVarMatch_def char_defs)
  have p2: "\<not> isPlaceholder (js ''8080'')"
    by (simp add: isPlaceholder_def js_def)
  have r2: "\<not> resultHasTabStops (processTemplateContent (js ''PORT=8080''))"
    "snippetContent (processTemplateContent (js ''PORT=8080'')) = js ''PORT=8080''"
    by (simp_all add: processor_defs char_defs)
  have e3: "envVarMatch (js (''NAME='' @ [CHR 0x22, CHR 0x22])) =
              Some (js ''NAME'', js [CHR 0x22, CHR 0x22])"
    by (simp add: envVarMatch_def char_defs)
  have p3: "isPlaceholder (js [CHR 0x22, CHR 0x22])"
    by (simp add: isPlaceholder_def js_def)
  have r3: "resultHasTabStops (processTemplateContent (js (''NAME='' @ [CHR 0x22, CHR 0x22])))"
    "snippetContent (processTemplateContent (js (''NAME='' @ [CHR 0x22, CHR 0x22]))) =
       js (''NAME=${1:'' @ [CHR 0x22, CHR 0x22] @ ''}'')"
    by (simp_all add: processor_defs char_defs numToString.simps)
  show ?thesis
    using general hasTabStops_spec [of c] e1 p1 r1 e2 p2 r2 e3 p3 r3 by blast
qed

theorem placeholder_classification_witness:
  "envVarMatch (js ''KEY = change-me'') = Some (js ''KEY'', js ''change-me'') \<and>
   isPlaceholderLine (js ''KEY = change-me'') \<and>
   spec_isPlaceholder (js ''change-me'') \<and>
   snippetLines (step init_state (js ''KEY = change-me'')) =
     [tabStopLine (js ''KEY'') 1 (js ''change-me'')] \<and>
   hasTabStops (step init_state (js ''KEY = change-me'')) \<and>
   tabStopIndex (step init_state (js ''KEY = change-me'')) = 2 \<and>
   resultHasTabStops (processTemplateContent (js ''KEY = change-me''))"
proof -
  have m: "envVarMatch (js ''KEY = change-me'') = Some (js ''KEY'', js ''change-me'')"
    by (simp add: envVarMatch_def char_defs)
  have p: "isPlaceholder (js ''change-me'')"
    by (simp add: isPlaceholder_def js_def)
  have l: "js_split (js ''KEY = change-me'') = [js ''KEY = change-me'']"
    by (simp add: js_def)
  note t = placeholder_classification [where line = "js ''KEY = change-me''" and key = "js ''KEY''"
      and v = "js ''change-me''" and s = init_state and c = "js ''KEY = change-me''"]
  have sp: "spec_isPlaceholder (js ''change-me'')"
    using m p t by blast
  have pl: "isPlaceholderLine (js ''KEY = change-me'')"
    using m sp t by blast
  have a: "snippetLines (step init_state (js ''KEY = change-me'')) =
      snippetLines init_state @
      [if spec_isPlaceholder (js ''change-me'')
       then tabStopLine (js ''KEY'') (tabStopIndex init_state) (js ''change-me'')
       else js ''KEY = change-me'']"
    using m t by blast
  have b: "hasTabStops (step init_state (js ''KEY = change-me'')) =
      (hasTabStops init_state \<or> spec_isPlaceholder (js ''change-me''))"
    using m t by blast
  have cc: "tabStopIndex (step init_state (js ''KEY = change-me'')) =
      (if spec_isPlaceholder (js ''change-me'') then tabStopIndex init_state + 1
       else tabStopIndex init_state)"
    using m t by blast
  have d: "resultHasTabStops (processTemplateContent (js ''KEY = change-me''))"
    using t m sp unfolding l by auto
  show ?thesis
    using m pl sp a b cc d by (simp add: init_state_def)
qed

text \<open>
  C3 (as amended). The annotated text is the lines of the input joined with single
  newlines, where each placeholder line is replaced by its key, \<open>=\<close> and a stop
  \<open>${k:value}\<close> around its value, \<open>k\<close> being the rank of the line among the placeholder
  lines, and every other line stands unchanged. The ranks of the placeholder lines, in
  file order, are \<open>1, ..., N\<close>. The annotated text contains these \<open>N\<close> stop markers and
  every stop marker that the input already contains: their number is \<open>N\<close> plus the
  number of markers of the input. When the input contains no stop marker, the markers
  of the annotated text are exactly \<open>1, ..., N\<close>, in text order.
\<close>

theorem tab_stops_in_file_order:
  "snippetContent (processTemplateContent c) =
     js_join (map (spec_emitted (js_split c)) [0..<length (js_split c)]) \<and>
   map (placeholderRank (js_split c))
     (filter (\<lambda>j. isPlaceholderLine (js_split c ! j)) [0..<length (js_split c)]) =
     [1..<Suc (length (filter isPlaceholderLine (js_split c)))] \<and>
   length (stopMarkers (snippetContent (processTemplateContent c))) =
     length (filter isPlaceholderLine (js_split c)) + length (stopMarkers c) \<and>
   (stopMarkers c = [] \<longrightarrow>
      stopMarkers (snippetContent (processTemplateContent c)) =
        [1..<Suc (length (filter isPlaceholderLine (js_split c)))])"
proof -
  have a: "snippetContent (processTemplateContent c) =
     js_join (map (spec_emitted (js_split c)) [0..<length (js_split c)])"
    by (simp only: snippet_emittedFrom spec_emitted_all)
  have b: "stopMarkers c = [] \<longrightarrow>
      stopMarkers (snippetContent (processTemplateContent c)) =
        [1..<Suc (length (filter isPlaceholderLine (js_split c)))]"
    using snippet_markers [of c] by blast
  show ?thesis
    using a b ranks_contiguous [of "js_split c"] snippet_marker_count [of c] by blast
qed

lemma demo_lines:
  "js_split (js ''DB_HOST=localhost'' @ [0x0A] @ js ''DB_PASSWORD=change-me'' @ [0x0A] @
     js ''DEBUG=true'') = [js ''DB_HOST=localhost'', js ''DB_PASSWORD=change-me'', js ''DEBUG=true'']"
  by (simp add: js_def)

theorem tab_stops_in_file_order_witness:
  "stopMarkers (js ''DB_HOST=localhost'' @ [0x0A] @ js ''DB_PASSWORD=change-me'' @ [0x0A] @
     js ''DEBUG=true'') = [] \<and>
   snippetContent (processTemplateContent (js ''DB_HOST=localhost'' @ [0x0A] @
     js ''DB_PASSWORD=change-me'' @ [0x0A] @ js ''DEBUG=true'')) =
     js ''DB_HOST=localhost'' @ [0x0A] @ js ''DB_PASSWORD=${1:change-me}'' @ [0x0A] @
     js ''DEBUG=true'' \<and>
   stopMarkers (snippetContent (processTemplateContent (js ''DB_HOST=localhost'' @ [0x0A] @
     js ''DB_PASSWORD=change-me'' @ [0x0A] @ js ''DEBUG=true''))) = [1]"
proof -
  let ?c = "js ''DB_HOST=localhost'' @ [0x0A] @ js ''DB_PASSWORD=change-me'' @ [0x0A] @
     js ''DEBUG=true''"
  have d: "stopMarkers ?c = []"
    by (simp add: markerAt_def js_def)
  have m: "envVarMatch (js ''DB_HOST=localhost'') = Some (js ''DB_HOST'', js ''localhost'')"
    "envVarMatch (js ''DB_PASSWORD=change-me'') = Some (js ''DB_PASSWORD'', js ''change-me'')"
    "envVarMatch (js ''DEBUG=true'') = Some (js ''DEBUG'', js ''true'')"
    by (simp_all add: envVarMatch_def char_defs)
  have q: "\<not> isPlaceholder (js ''localhost'')" "isPlaceholder (js ''change-me'')"
    "\<not> isPlaceholder (js ''true'')"
    by (simp_all add: isPlaceholder_def js_def)
  have p: "\<not> isPlaceholderLine (js ''DB_HOST=localhost'')"
    "isPlaceholderLine (js ''DB_PASSWORD=change-me'')"
    "\<not> isPlaceholderLine (js ''DEBUG=true'')"
    by (simp_all add: isPlaceholderLine_def m q)
  have n: "numToString (Suc 0) = js ''1''"
    by (simp add: numToString.simps js_def)
  have t: "js ''DB_PASSWORD'' @ js ''='' @ js ''${'' @ js ''1'' @ js '':'' @ js ''change-me'' @
      js ''}'' = js ''DB_PASSWORD=${1:change-me}''"
    by (simp add: js_def)
  have e: "map (spec_emitted (js_split ?c)) [0..<length (js_split ?c)] =
      [js ''DB_HOST=localhost'', js ''DB_PASSWORD=${1:change-me}'', js ''DEBUG=true'']"
    by (simp only: demo_lines)
      (simp add: spec_emitted_def placeholderRank_def p m q n t upt_conv_Cons)
  have f: "length (filter isPlaceholderLine (js_split ?c)) = 1"
    by (simp only: demo_lines) (simp add: p)
  have j: "js_join [js ''DB_HOST=localhost'', js ''DB_PASSWORD=${1:change-me}'', js ''DEBUG=true''] =
      js ''DB_HOST=localhost'' @ [0x0A] @ js ''DB_PASSWORD=${1:change-me}'' @ [0x0A] @
      js ''DEBUG=true''"
    by simp
  note t = tab_stops_in_file_order [of ?c]
  have s1: "snippetContent (processTemplateContent ?c) =
      js ''DB_HOST=localhost'' @ [0x0A] @ js ''DB_PASSWORD=${1:change-me}'' @ [0x0A] @
      js ''DEBUG=true''"
    using t unfolding e j by blast
  from t d have "stopMarkers (snippetContent (processTemplateContent ?c)) =
      [1..<Suc (length (filter isPlaceholderLine (js_split ?c)))]"
    by blast
  then have s2: "stopMarkers (snippetContent (processTemplateContent ?c)) = [1]"
    unfolding f by simp
  show ?thesis
    by (rule conjI [OF d conjI [OF s1 s2]])
qed

text \<open>
  The claim as written, for every input, fails: the value is not escaped, so a value
  that itself holds a stop marker adds one to the annotated text. The template
  \<open>A=${7:xxx}\<close> has one placeholder line and its annotated text \<open>A=${1:${7:xxx}}\<close> holds
  the markers 1 and 7.
\<close>

theorem unescaped_value_adds_marker:
  "stopMarkers (snippetContent (processTemplateContent (js ''A=${7:xxx}''))) = [1, 7] \<and>
   length (filter isPlaceholderLine (js_split (js ''A=${7:xxx}''))) = 1"
  by (simp add: processor_defs char_defs numToString.simps markerAt_def markerIndex_def
      digitsToNat_def)

text \<open>
  C4. The first-value position is meant to be the offset, in the original text, of the
  position right after the key and the \<open>=\<close> sign of the first placeholder line. The
  pattern lets white space stand between the key and \<open>=\<close>, and the code adds the length
  of the rebuilt \<open>KEY=\<close> to the offset of the line: for \<open>A =xxx\<close> it returns 2,
  where the original text has the \<open>=\<close> sign itself; the position right after the sign
  is 3.
\<close>

theorem space_before_equals_shifts_position:
  "resultFirstValuePosition (processTemplateContent (js ''A =xxx'')) = Some 2 \<and>
   spec_firstValueOffset (js ''A =xxx'') = Some 3 \<and>
   js ''A =xxx'' ! 2 = 0x3D"
  by (simp add: processor_defs char_defs spec_firstValueOffset_def)

text \<open>
  C10. Splitting on newlines and joining again gives the text back. So when no line of
  the template is a placeholder line, the annotated text is the input text, the
  placeholder flag is false and the first-value position is null.
\<close>

theorem no_placeholder_identity:
  "js_join (js_split c) = c \<and>
   (\<not> list_ex isPlaceholderLine (js_split c) \<longrightarrow>
      snippetContent (processTemplateContent c) = c \<and>
      \<not> resultHasTabStops (processTemplateContent c) \<and>
      resultFirstValuePosition (processTemplateContent c) = None)"
proof -
  have "snippetContent (processTemplateContent c) = c"
    and "\<not> resultHasTabStops (processTemplateContent c)"
    and "resultFirstValuePosition (processTemplateContent c) = None"
    if no: "\<not> list_ex isPlaceholderLine (js_split c)"
  proof -
    let ?ls = "js_split c"
    have each: "\<And>j i. j < length ?ls \<Longrightarrow> emit i (?ls ! j) = ?ls ! j"
      using no by (simp add: emit_other list_ex_iff)
    have "map (\<lambda>j. emit (tabStopIndex init_state +
                 length (filter isPlaceholderLine (take j ?ls))) (?ls ! j)) [0..<length ?ls] =
          map (\<lambda>j. ?ls ! j) [0..<length ?ls]"
      by (rule map_cong) (simp_all add: each)
    then have "snippetLines (foldl step init_state ?ls) = ?ls"
      by (simp add: fold_snippetLines init_state_def map_nth)
    then show "snippetContent (processTemplateContent c) = c"
      by (simp add: processTemplateContent_def Let_def js_join_split)
    show "\<not> resultHasTabStops (processTemplateContent c)"
      using no by (simp add: processTemplateContent_def Let_def fold_hasTabStops init_state_def)
    show "resultFirstValuePosition (processTemplateContent c) = None"
      using no
      by (simp add: processTemplateContent_def Let_def fold_firstValuePosition_none
          init_state_def)
  qed
  then show ?thesis
    by (simp add: js_join_split)
qed

theorem no_placeholder_identity_witness:
  "\<not> list_ex isPlaceholderLine (js_split (js ''PORT=8080'' @ [0x0A] @ js ''# port'')) \<and>
   snippetContent (processTemplateContent (js ''PORT=8080'' @ [0x0A] @ js ''# port'')) =
     js ''PORT=8080'' @ [0x0A] @ js ''# port'' \<and>
   resultFirstValuePosition
     (processTemplateContent (js ''PORT=8080'' @ [0x0A] @ js ''# port'')) = None"
proof -
  have no: "\<not> list_ex isPlaceholderLine (js_split (js ''PORT=8080'' @ [0x0A] @ js ''# port''))"
    by (simp add: isPlaceholderLine_def envVarMatch_def isPlaceholder_def char_defs)
  show ?thesis
    using no no_placeholder_identity [of "js ''PORT=8080'' @ [0x0A] @ js ''# port''"]
    by blast
qed

section \<open>Properties of the template locator\<close>

text \<open>
  C7. What the locator returns is, on every tree, the path of a regular file of the
  tree whose base name is one of the four template names and that has no directory
  below the root on its way whose name starts with \<open>.\<close> or is \<open>node_modules\<close>. It
  does not return every such file: when \<open>statSync\<close> fails on an entry (here \<open>gone\<close> in
  \<open>src\<close>), the entries listed after it in the same directory are not looked at, and the
  template \<open>src/.env.sample\<close> is missed.
\<close>

theorem failing_stat_hides_template:
  "set (findTemplateFiles rootPath root) \<subseteq>
     (@) rootPath ` set (filter wanted (filesOf root)) \<and>
   findTemplateFiles [js ''w'']
     (Directory (Some
        [(js ''src'', Directory (Some [(js ''gone'', StatFails), (js ''.env.sample'', RegularFile)])),
         (js ''.env.example'', RegularFile)])) =
     [[js ''w'', js ''.env.example'']] \<and>
   filter wanted (filesOf
     (Directory (Some
        [(js ''src'', Directory (Some [(js ''gone'', StatFails), (js ''.env.sample'', RegularFile)])),
         (js ''.env.example'', RegularFile)]))) =
     [[js ''src'', js ''.env.sample''], [js ''.env.example'']]"
proof -
  have e: "findTemplateFiles [js ''w'']
     (Directory (Some
        [(js ''src'', Directory (Some [(js ''gone'', StatFails), (js ''.env.sample'', RegularFile)])),
         (js ''.env.example'', RegularFile)])) =
     [[js ''w'', js ''.env.example'']]"
    by (simp add: findTemplateFiles_def templatePatterns_def js_def)
  have f: "filter wanted (filesOf
     (Directory (Some
        [(js ''src'', Directory (Some [(js ''gone'', StatFails), (js ''.env.sample'', RegularFile)])),
         (js ''.env.example'', RegularFile)]))) =
     [[js ''src'', js ''.env.sample''], [js ''.env.example'']]"
    by (simp add: templatePatterns_def wanted_def insideExcluded_def excludedName_def js_def)
  show ?thesis
    using locator_returns_only_wanted [of rootPath root] e f by blast
qed

text \<open>
  C8. When \<open>statSync\<close> fails on an entry (here \<open>stale\<close>), the exception leaves the loop
  over the directory that lists it: the entries listed after it are not looked at, and
  the template next to it, a regular file of the tree, is not returned. A directory that
  cannot be listed (here \<open>locked\<close>) is skipped and its siblings are still visited.
\<close>

theorem failing_stat_ends_the_directory:
  "findTemplateFiles [js ''w'']
     (Directory (Some [(js ''stale'', StatFails), (js ''.env.example'', RegularFile)])) = [] \<and>
   filesOf (Directory (Some [(js ''stale'', StatFails), (js ''.env.example'', RegularFile)])) =
     [[js ''.env.example'']] \<and>
   findTemplateFiles [js ''w'']
     (Directory (Some [(js ''locked'', Directory None), (js ''.env.example'', RegularFile)])) =
     [[js ''w'', js ''.env.example'']]"
  by (simp add: findTemplateFiles_def templatePatterns_def js_def)

section \<open>Properties of the ignore-file updater\<close>

text \<open>
  C5. The entry counts as present exactly when some line of the ignore-rules content
  (the empty content when the file is absent), trimmed, is \<open>.env\<close>, \<open>/.env\<close> or \<open>*.env\<close>.
  When it is present the updater returns without a write and without any other effect,
  whatever the user would answer; a line \<open>/.env\<close> with white space around it is enough.
\<close>

theorem ignore_entry_detection:
  "(hasEnv c \<longleftrightarrow>
      (\<exists>line \<in> set (js_split c).
         js_trim line = js ''.env'' \<or> js_trim line = js ''/.env'' \<or> js_trim line = js ''*.env'')) \<and>
   (priorContent fs workspaceRoot c \<and> hasEnv c \<longrightarrow>
      checkGitignore u workspaceRoot fs = \<lparr>fsAfter = fs, effects = [], thrown = None\<rparr>) \<and>
   (priorContent fs workspaceRoot c \<and> list_all isSpace ws1 \<and> list_all isSpace ws2 \<and>
    ws1 @ js ''/.env'' @ ws2 \<in> set (js_split c) \<longrightarrow>
      checkGitignore u workspaceRoot fs = \<lparr>fsAfter = fs, effects = [], thrown = None\<rparr>)"
proof -
  have a: "priorContent fs workspaceRoot c \<and> hasEnv c \<longrightarrow>
      checkGitignore u workspaceRoot fs = \<lparr>fsAfter = fs, effects = [], thrown = None\<rparr>"
    using checkGitignore_prior [of fs workspaceRoot c u] by simp
  have b: "list_all isSpace ws1 \<and> list_all isSpace ws2 \<and>
    ws1 @ js ''/.env'' @ ws2 \<in> set (js_split c) \<longrightarrow> hasEnv c"
    using rooted_line by blast
  show ?thesis
    using a b hasEnv_iff [of c] by blast
qed

lemma demo_split:
  "js_split (js ''node_modules'' @ [0x0A] @ js ''  /.env '' @ [0x0A]) =
     [js ''node_modules'', js ''  /.env '', []]"
  by (simp add: js_def)

theorem ignore_entry_detection_witness:
  "priorContent (demo_fs (js ''node_modules'' @ [0x0A] @ js ''  /.env '' @ [0x0A])) [js ''w'']
     (js ''node_modules'' @ [0x0A] @ js ''  /.env '' @ [0x0A]) \<and>
   js ''  '' @ js ''/.env'' @ js '' '' \<in>
     set (js_split (js ''node_modules'' @ [0x0A] @ js ''  /.env '' @ [0x0A])) \<and>
   hasEnv (js ''node_modules'' @ [0x0A] @ js ''  /.env '' @ [0x0A]) \<and>
   checkGitignore demo_user [js ''w'']
     (demo_fs (js ''node_modules'' @ [0x0A] @ js ''  /.env '' @ [0x0A])) =
     \<lparr>fsAfter = demo_fs (js ''node_modules'' @ [0x0A] @ js ''  /.env '' @ [0x0A]),
      effects = [], thrown = None\<rparr>"
proof -
  let ?c = "js ''node_modules'' @ [0x0A] @ js ''  /.env '' @ [0x0A]"
  have p: "priorContent (demo_fs ?c) [js ''w''] ?c"
    by (simp add: priorContent_def demo_fs_def)
  have m: "js ''  '' @ js ''/.env'' @ js '' '' \<in> set (js_split ?c)"
    by (simp add: demo_split) (simp add: js_def)
  have w: "list_all isSpace (js ''  '')" "list_all isSpace (js '' '')"
    by (simp_all add: char_defs)
  note t = ignore_entry_detection [of ?c "demo_fs ?c" "[js ''w'']" demo_user "js ''  ''" "js '' ''"]
  have r: "checkGitignore demo_user [js ''w''] (demo_fs ?c) =
             \<lparr>fsAfter = demo_fs ?c, effects = [], thrown = None\<rparr>"
    using t p m w by simp
  have h: "hasEnv ?c"
    by (simp add: hasEnv_def demo_split) (simp add: js_trim_def char_defs)
  show ?thesis
    using p m r h by simp
qed

text \<open>
  C6. When the entry is appended, the file holds the prior content, a newline if the
  prior content did not end in one, and \<open>.env\<close> with its newline; no other file
  changes and this is the only write. A run writes at most once. The lines of the new
  content are the lines of the prior content, unchanged and in order, followed by
  \<open>.env\<close> on a line of its own.
\<close>

theorem append_keeps_lines:
  "(priorContent fs workspaceRoot c \<and> \<not> hasEnv c \<and> addToGitignore u = Some Yes \<and>
    writeError fs (workspaceRoot @ [js ''.gitignore'']) = None \<longrightarrow>
      files (fsAfter (checkGitignore u workspaceRoot fs)) (workspaceRoot @ [js ''.gitignore'']) =
        Present (c @ (if c \<noteq> [] \<and> last c = 0x0A then [] else [0x0A]) @ js ''.env'' @ [0x0A]) \<and>
      (\<forall>p. p \<noteq> workspaceRoot @ [js ''.gitignore''] \<longrightarrow>
         files (fsAfter (checkGitignore u workspaceRoot fs)) p = files fs p) \<and>
      filter isWrite (effects (checkGitignore u workspaceRoot fs)) =
        [WriteFile (workspaceRoot @ [js ''.gitignore''])
           (c @ (if c \<noteq> [] \<and> last c = 0x0A then [] else [0x0A]) @ js ''.env'' @ [0x0A])]) \<and>
   length (filter isWrite (effects (checkGitignore u workspaceRoot fs))) \<le> 1 \<and>
   js_split (c @ (if c \<noteq> [] \<and> last c = 0x0A then [] else [0x0A]) @ js ''.env'' @ [0x0A]) =
     (if c \<noteq> [] \<and> last c = 0x0A then butlast (js_split c) else js_split c) @ [js ''.env'', []]"
proof -
  have n: "newGitignoreContent c =
             c @ (if c \<noteq> [] \<and> last c = 0x0A then [] else [0x0A]) @ js ''.env'' @ [0x0A]"
    by (simp add: newGitignoreContent_def js_endsWith_nl)
  have a: "priorContent fs workspaceRoot c \<and> \<not> hasEnv c \<and> addToGitignore u = Some Yes \<and>
    writeError fs (workspaceRoot @ [js ''.gitignore'']) = None \<longrightarrow>
      files (fsAfter (checkGitignore u workspaceRoot fs)) (workspaceRoot @ [js ''.gitignore'']) =
        Present (newGitignoreContent c) \<and>
      (\<forall>p. p \<noteq> workspaceRoot @ [js ''.gitignore''] \<longrightarrow>
         files (fsAfter (checkGitignore u workspaceRoot fs)) p = files fs p) \<and>
      filter isWrite (effects (checkGitignore u workspaceRoot fs)) =
        [WriteFile (workspaceRoot @ [js ''.gitignore'']) (newGitignoreContent c)]"
    using checkGitignore_prior [of fs workspaceRoot c u] by (simp add: writeFileSync_def)
  have b: "length (filter isWrite (effects (checkGitignore u workspaceRoot fs))) \<le> 1"
    by (rule checkGitignore_writes)
  have c: "js_split (newGitignoreContent c) =
     (if c \<noteq> [] \<and> last c = 0x0A then butlast (js_split c) else js_split c) @ [js ''.env'', []]"
    by (rule new_lines)
  show ?thesis
    using a b c unfolding n by blast
qed

theorem append_keeps_lines_witness:
  "priorContent (demo_fs (js ''node_modules'')) [js ''w''] (js ''node_modules'') \<and>
   \<not> hasEnv (js ''node_modules'') \<and>
   files (fsAfter (checkGitignore demo_user [js ''w''] (demo_fs (js ''node_modules''))))
     [js ''w'', js ''.gitignore''] =
     Present (js ''node_modules'' @ [0x0A] @ js ''.env'' @ [0x0A]) \<and>
   js_split (js ''node_modules'' @ [0x0A] @ js ''.env'' @ [0x0A]) =
     [js ''node_modules'', js ''.env'', []]"
proof -
  let ?c = "js ''node_modules''"
  have p: "priorContent (demo_fs ?c) [js ''w''] ?c"
    by (simp add: priorContent_def demo_fs_def)
  have h: "\<not> hasEnv ?c"
    by (simp add: hasEnv_def js_trim_def char_defs)
  have u: "addToGitignore demo_user = Some Yes"
    by (simp add: demo_user_def)
  have w: "writeError (demo_fs ?c) ([js ''w''] @ [js ''.gitignore'']) = None"
    by (simp add: demo_fs_def)
  have l: "?c \<noteq> [] \<and> last ?c \<noteq> 0x0A" "js_split ?c = [?c]"
    by (simp_all add: js_def)
  show ?thesis
    using p h u w l append_keeps_lines [of "demo_fs ?c" "[js ''w'']" ?c demo_user]
    by simp
qed

section \<open>Properties of the orchestrator\<close>

lemma selectTemplate_None:
  "selectTemplate u workspaceRoot templateFiles = None \<longleftrightarrow>
     length templateFiles \<noteq> 1 \<and>
     showQuickPick u
       (map (\<lambda>file. \<lparr>label = last file, description = drop (length workspaceRoot) file\<rparr>)
          templateFiles) = None"
  by (simp add: selectTemplate_def split: option.splits)

text \<open>
  C9. The cancellation paths of the command. A dismissed template pick (which can only
  happen when the locator found other than one template) ends the command with no
  effect and the file system as it was; so does Cancel, or a dismissed prompt, when the
  target exists. Open Existing opens the target, writes nothing and leaves the file
  system as it was.
\<close>

theorem cancellation_writes_nothing:
  "(selectTemplate u workspaceRoot templateFiles = None \<longleftrightarrow>
      length templateFiles \<noteq> 1 \<and>
      showQuickPick u
        (map (\<lambda>file. \<lparr>label = last file, description = drop (length workspaceRoot) file\<rparr>)
           templateFiles) = None) \<and>
   (findTemplateFiles workspaceRoot (tree fs) \<noteq> [] \<and>
    selectTemplate u workspaceRoot (findTemplateFiles workspaceRoot (tree fs)) = None \<longrightarrow>
      createEnv u (Some (workspaceRoot # others)) fs =
        \<lparr>fsAfter = fs, effects = [], thrown = None\<rparr>) \<and>
   (findTemplateFiles workspaceRoot (tree fs) \<noteq> [] \<and>
    selectTemplate u workspaceRoot (findTemplateFiles workspaceRoot (tree fs)) = Some t \<and>
    existsSync fs (butlast t @ [js ''.env'']) \<and>
    (existingAction u = Some Cancel \<or> existingAction u = None) \<longrightarrow>
      createEnv u (Some (workspaceRoot # others)) fs =
        \<lparr>fsAfter = fs, effects = [], thrown = None\<rparr>) \<and>
   (findTemplateFiles workspaceRoot (tree fs) \<noteq> [] \<and>
    selectTemplate u workspaceRoot (findTemplateFiles workspaceRoot (tree fs)) = Some t \<and>
    existsSync fs (butlast t @ [js ''.env'']) \<and>
    existingAction u = Some OpenExisting \<longrightarrow>
      fsAfter (createEnv u (Some (workspaceRoot # others)) fs) = fs \<and>
      filter isWrite (effects (createEnv u (Some (workspaceRoot # others)) fs)) = [] \<and>
      thrown (createEnv u (Some (workspaceRoot # others)) fs) = None)"
proof -
  have a: "findTemplateFiles workspaceRoot (tree fs) \<noteq> [] \<and>
    selectTemplate u workspaceRoot (findTemplateFiles workspaceRoot (tree fs)) = None \<longrightarrow>
      createEnv u (Some (workspaceRoot # others)) fs =
        \<lparr>fsAfter = fs, effects = [], thrown = None\<rparr>"
    by (simp add: createEnv_def Let_def)
  have b: "findTemplateFiles workspaceRoot (tree fs) \<noteq> [] \<and>
    selectTemplate u workspaceRoot (findTemplateFiles workspaceRoot (tree fs)) = Some t \<and>
    existsSync fs (butlast t @ [js ''.env'']) \<and>
    (existingAction u = Some Cancel \<or> existingAction u = None) \<longrightarrow>
      createEnv u (Some (workspaceRoot # others)) fs =
        \<lparr>fsAfter = fs, effects = [], thrown = None\<rparr>"
    by (auto simp: createEnv_def Let_def)
  have c: "findTemplateFiles workspaceRoot (tree fs) \<noteq> [] \<and>
    selectTemplate u workspaceRoot (findTemplateFiles workspaceRoot (tree fs)) = Some t \<and>
    existsSync fs (butlast t @ [js ''.env'']) \<and>
    existingAction u = Some OpenExisting \<longrightarrow>
      fsAfter (createEnv u (Some (workspaceRoot # others)) fs) = fs \<and>
      filter isWrite (effects (createEnv u (Some (workspaceRoot # others)) fs)) = [] \<and>
      thrown (createEnv u (Some (workspaceRoot # others)) fs) = None"
    by (simp add: createEnv_def Let_def)
  show ?thesis
    using a b c selectTemplate_None [of u workspaceRoot templateFiles] by blast
qed

lemma demo_found:
  "findTemplateFiles [js ''w''] (tree (demo_fs g)) =
     [[js ''w'', js ''.env.example''], [js ''w'', js ''api'', js ''.env.sample'']]"
  by (simp add: findTemplateFiles_def demo_fs_def templatePatterns_def js_def)

lemma demo_single_found:
  "findTemplateFiles [js ''w''] (tree demo_single) = [[js ''w'', js ''.env.example'']]"
  by (simp add: findTemplateFiles_def demo_single_def templatePatterns_def js_def)

theorem cancellation_writes_nothing_witness:
  "selectTemplate demo_user [js ''w''] (findTemplateFiles [js ''w''] (tree (demo_fs []))) = None \<and>
   createEnv demo_user (Some [[js ''w'']]) (demo_fs []) =
     \<lparr>fsAfter = demo_fs [], effects = [], thrown = None\<rparr> \<and>
   selectTemplate demo_user [js ''w''] (findTemplateFiles [js ''w''] (tree demo_single)) =
     Some [js ''w'', js ''.env.example''] \<and>
   existsSync demo_single [js ''w'', js ''.env''] \<and>
   createEnv demo_user (Some [[js ''w'']]) demo_single =
     \<lparr>fsAfter = demo_single, effects = [], thrown = None\<rparr> \<and>
   fsAfter (createEnv (demo_user\<lparr>existingAction := Some OpenExisting\<rparr>) (Some [[js ''w'']])
     demo_single) = demo_single"
proof -
  have s0: "selectTemplate demo_user [js ''w''] (findTemplateFiles [js ''w''] (tree (demo_fs []))) = None"
    by (simp add: demo_found selectTemplate_def demo_user_def)
  have s1: "selectTemplate u [js ''w''] (findTemplateFiles [js ''w''] (tree demo_single)) =
      Some [js ''w'', js ''.env.example'']" for u
    by (simp add: demo_single_found selectTemplate_def)
  have e: "existsSync demo_single (butlast [js ''w'', js ''.env.example''] @ [js ''.env''])"
    by (simp add: existsSync_def demo_single_def)
  have n0: "findTemplateFiles [js ''w''] (tree (demo_fs [])) \<noteq> []"
    and n1: "findTemplateFiles [js ''w''] (tree demo_single) \<noteq> []"
    by (simp_all add: demo_found demo_single_found)
  have u: "existingAction demo_user = Some Cancel"
    "existingAction (demo_user\<lparr>existingAction := Some OpenExisting\<rparr>) = Some OpenExisting"
    by (simp_all add: demo_user_def)
  have r0: "createEnv demo_user (Some [[js ''w'']]) (demo_fs []) =
     \<lparr>fsAfter = demo_fs [], effects = [], thrown = None\<rparr>"
    using s0 n0 cancellation_writes_nothing [where u = demo_user and workspaceRoot = "[js ''w'']"
        and fs = "demo_fs []" and others = "[]"]
    by blast
  have r1: "createEnv demo_user (Some [[js ''w'']]) demo_single =
     \<lparr>fsAfter = demo_single, effects = [], thrown = None\<rparr>"
    using s1 n1 e u(1)
      cancellation_writes_nothing [where u = demo_user and workspaceRoot = "[js ''w'']"
        and fs = demo_single and others = "[]" and t = "[js ''w'', js ''.env.example'']"]
    by blast
  have r2: "fsAfter (createEnv (demo_user\<lparr>existingAction := Some OpenExisting\<rparr>)
      (Some [[js ''w'']]) demo_single) = demo_single"
    using s1 n1 e u(2)
      cancellation_writes_nothing
        [where u = "demo_user\<lparr>existingAction := Some OpenExisting\<rparr>"
        and workspaceRoot = "[js ''w'']" and fs = demo_single and others = "[]"
        and t = "[js ''w'', js ''.env.example'']"]
    by blast
  show ?thesis
    using s0 s1 e r0 r1 r2 by simp
qed

end
